theory Spec2Isabelle
  imports Main "HOL-Library.AList"
begin

section \<open>JavaScript strings and values\<close>

text \<open>
  A string is the list of the bytes of its UTF-8 encoding, so an ASCII string is the list
  of its characters. The program only tests strings for emptiness and equality, appends
  them, and tests for and drops an ASCII prefix, and all of these agree on the encoding.
  The built-in \<open>String.prototype.toLowerCase\<close> is not part of the program: it is the
  Unicode case mapping of the language. Every function
  that calls it takes it as the parameter \<open>lc\<close>, and a theorem says which property of the
  built-in it relies on, if any. The two properties used are that the built-in maps the
  empty string, and only the empty string, to the empty string, and (for one conjunct)
  that lower-casing twice is lower-casing once.

  \<open>asciiToLowerCase\<close> is the built-in on ASCII text: it maps the letters \<open>A\<close> to
  \<open>Z\<close> (codes 65 to 90) to \<open>a\<close> to \<open>z\<close> and leaves every other character alone. It is
  used only to evaluate the example environments, whose strings are all ASCII.

  A value of type \<open>string | undefined\<close> is a \<open>string option\<close>; it is truthy when it is
  present and not the empty string, and \<open>a || b\<close> is \<open>orElse a b\<close>.
\<close>

type_synonym lowerCasing = "string \<Rightarrow> string"

definition asciiToLowerChar :: "char \<Rightarrow> char" where
  "asciiToLowerChar c =
     (let n = (of_char c :: nat) in if 65 \<le> n \<and> n \<le> 90 then char_of (n + 32) else c)"

definition asciiToLowerCase :: lowerCasing where
  "asciiToLowerCase s = map asciiToLowerChar s"

definition startsWith :: "string \<Rightarrow> string \<Rightarrow> bool" where
  "startsWith s p = (take (length p) s = p)"

definition substring :: "string \<Rightarrow> nat \<Rightarrow> string" where
  "substring s n = drop n s"

fun join :: "string list \<Rightarrow> string \<Rightarrow> string" where
  "join [] sep = []"
| "join [x] sep = x"
| "join (x # y # ys) sep = x @ sep @ join (y # ys) sep"

definition truthy :: "string option \<Rightarrow> bool" where
  "truthy v = (case v of None \<Rightarrow> False | Some s \<Rightarrow> s \<noteq> [])"

definition orElse :: "string option \<Rightarrow> string option \<Rightarrow> string option" where
  "orElse a b = (if truthy a then a else b)"

definition apostrophe :: string where "apostrophe = [CHR 0x27]"

section \<open>Workspace configuration\<close>

text \<open>
  The functions of \<open>workspace-config.ts\<close>. A JavaScript \<open>Map\<close> is an association list
  in insertion order: \<open>Map.set\<close> is \<open>AList.update\<close>, which replaces the value of an
  existing key in place and appends a new key at the end, \<open>Map.get\<close> is \<open>map_of\<close> and
  \<open>Map.size\<close> is the length of the list. The process environment is the list of its
  entries in enumeration order, read through \<open>map_of\<close>. The loop over the entries is a
  \<open>fold\<close> of \<open>scanEntry\<close>; it returns the map together with the warnings handed to the
  logger, in order. The functions that lower-case a name take the built-in as \<open>lc\<close>.
\<close>

record WorkspaceConfig =
  name :: string
  url :: string
  token :: string
  urlEnvVar :: string
  tokenEnvVar :: string

record MultiWorkspaceConfig =
  workspaces :: "(string \<times> WorkspaceConfig) list"
  defaultWorkspace :: "string option"

definition urlPrefix :: string where "urlPrefix = ''N8N_URL_''"

definition tokenPrefix :: string where "tokenPrefix = ''N8N_TOKEN_''"

type_synonym environment = "(string \<times> string) list"

definition missingTokenWarning :: "string \<Rightarrow> string \<Rightarrow> string" where
  "missingTokenWarning workspaceName tokenVar =
     ''Workspace '' @ apostrophe @ workspaceName @ apostrophe @
     '' has URL but missing token ('' @ tokenVar @ ''), skipping''"

definition scanEntry ::
  "lowerCasing \<Rightarrow> environment \<Rightarrow> string \<times> string \<Rightarrow>
   (string \<times> WorkspaceConfig) list \<times> string list \<Rightarrow>
   (string \<times> WorkspaceConfig) list \<times> string list" where
  "scanEntry lc env entry acc =
     (case entry of (envVar, value) \<Rightarrow>
      case acc of (ws, warnings) \<Rightarrow>
       if startsWith envVar urlPrefix \<and> value \<noteq> [] then
         (let workspaceName = lc (substring envVar (length urlPrefix));
              tokenVar = tokenPrefix @ substring envVar (length urlPrefix);
              tok = map_of env tokenVar
          in if workspaceName = [] \<or> \<not> truthy tok then
               (ws, if \<not> truthy tok
                    then warnings @ [missingTokenWarning workspaceName tokenVar]
                    else warnings)
             else
               (AList.update workspaceName
                  \<lparr>name = workspaceName, url = value, token = the tok,
                   urlEnvVar = envVar, tokenEnvVar = tokenVar\<rparr> ws,
                warnings))
       else (ws, warnings))"

definition scanEnvironment ::
  "lowerCasing \<Rightarrow> environment \<Rightarrow> (string \<times> WorkspaceConfig) list \<times> string list" where
  "scanEnvironment lc env = fold (scanEntry lc env) env ([], [])"

definition withFallback ::
  "environment \<Rightarrow> (string \<times> WorkspaceConfig) list \<Rightarrow> (string \<times> WorkspaceConfig) list" where
  "withFallback env ws =
     (if length ws = 0 then
        (let fallbackUrl = map_of env ''N8N_API_URL'';
             fallbackKey = map_of env ''N8N_API_KEY''
         in if truthy fallbackUrl \<and> truthy fallbackKey then
              AList.update ''default''
                \<lparr>name = ''default'', url = the fallbackUrl, token = the fallbackKey,
                 urlEnvVar = ''N8N_API_URL'', tokenEnvVar = ''N8N_API_KEY''\<rparr> ws
            else ws)
      else ws)"

definition has :: "(string \<times> WorkspaceConfig) list \<Rightarrow> string \<Rightarrow> bool" where
  "has ws k = (k \<in> set (map fst ws))"

definition firstKey :: "(string \<times> WorkspaceConfig) list \<Rightarrow> string option" where
  "firstKey ws = (case ws of [] \<Rightarrow> None | (k, v) # rest \<Rightarrow> Some k)"

definition chooseDefault ::
  "lowerCasing \<Rightarrow> environment \<Rightarrow> (string \<times> WorkspaceConfig) list \<Rightarrow> string option" where
  "chooseDefault lc env ws =
     (let envDefault = map_option lc (map_of env ''N8N_DEFAULT_WORKSPACE'')
      in if truthy envDefault \<and> has ws (the envDefault) then envDefault
         else if length ws > 0 then firstKey ws
         else None)"

definition loadWorkspaceConfigLogged ::
  "lowerCasing \<Rightarrow> environment \<Rightarrow> MultiWorkspaceConfig \<times> string list" where
  "loadWorkspaceConfigLogged lc env =
     (case scanEnvironment lc env of (scanned, warnings) \<Rightarrow>
        (let ws = withFallback env scanned
         in (\<lparr>workspaces = ws, defaultWorkspace = chooseDefault lc env ws\<rparr>, warnings)))"

definition loadWorkspaceConfig :: "lowerCasing \<Rightarrow> environment \<Rightarrow> MultiWorkspaceConfig" where
  "loadWorkspaceConfig lc env = fst (loadWorkspaceConfigLogged lc env)"

definition loadWarnings :: "lowerCasing \<Rightarrow> environment \<Rightarrow> string list" where
  "loadWarnings lc env = snd (loadWorkspaceConfigLogged lc env)"

definition getWorkspace ::
  "lowerCasing \<Rightarrow> MultiWorkspaceConfig \<Rightarrow> string option \<Rightarrow> WorkspaceConfig option" where
  "getWorkspace lc config nm =
     (let workspaceName = orElse (map_option lc nm) (defaultWorkspace config)
      in if \<not> truthy workspaceName then None
         else map_of (workspaces config) (the workspaceName))"

definition isMultiWorkspaceMode :: "MultiWorkspaceConfig \<Rightarrow> bool" where
  "isMultiWorkspaceMode config = (length (workspaces config) > 1)"

definition getAvailableWorkspaces :: "MultiWorkspaceConfig \<Rightarrow> string list" where
  "getAvailableWorkspaces config = map fst (workspaces config)"

record InstanceContext =
  n8nApiUrl :: string
  n8nApiKey :: string
  instanceId :: string

definition workspaceToInstanceContext :: "WorkspaceConfig \<Rightarrow> InstanceContext" where
  "workspaceToInstanceContext workspace =
     \<lparr>n8nApiUrl = url workspace, n8nApiKey = token workspace,
      instanceId = ''workspace-'' @ name workspace\<rparr>"

section \<open>The client manager\<close>

text \<open>
  The class \<open>WorkspaceApiClientManager\<close> and the helpers around it. The API client class
  is an external component built from a base URL and an API key; each \<open>new\<close> allocates
  an object in \<open>heap\<close> and the client handle is its position there, so that two handles
  are the same reference exactly when they are equal. The manager is passed explicitly;
  \<open>debugLog\<close> collects the messages given to \<open>logger.debug\<close>. \<open>runCalls\<close> runs a
  sequence of \<open>getOrCreateClient\<close> calls and collects the handles returned.
\<close>

record N8nApiClient =
  baseUrl :: string
  apiKey :: string

type_synonym clientRef = nat

record WorkspaceApiClientManager =
  clients :: "(string \<times> clientRef) list"
  workspaceConfig :: MultiWorkspaceConfig
  heap :: "N8nApiClient list"
  debugLog :: "string list"

definition newManager :: "MultiWorkspaceConfig \<Rightarrow> WorkspaceApiClientManager" where
  "newManager config = \<lparr>clients = [], workspaceConfig = config, heap = [], debugLog = []\<rparr>"

definition createdClientMessage :: "string \<Rightarrow> string" where
  "createdClientMessage workspaceName =
     ''Created API client for workspace '' @ apostrophe @ workspaceName @ apostrophe"

definition getOrCreateClient ::
  "WorkspaceConfig \<Rightarrow> WorkspaceApiClientManager \<Rightarrow> clientRef \<times> WorkspaceApiClientManager" where
  "getOrCreateClient workspace m =
     (case map_of (clients m) (name workspace) of
        Some client \<Rightarrow> (client, m)
      | None \<Rightarrow>
          (let client = length (heap m)
           in (client,
               m\<lparr>heap := heap m @ [\<lparr>baseUrl = url workspace, apiKey = token workspace\<rparr>],
                 clients := AList.update (name workspace) client (clients m),
                 debugLog := debugLog m @ [createdClientMessage (name workspace)]\<rparr>)))"

definition getClient ::
  "lowerCasing \<Rightarrow> string option \<Rightarrow> WorkspaceApiClientManager \<Rightarrow>
   clientRef option \<times> WorkspaceApiClientManager" where
  "getClient lc workspaceName m =
     (case getWorkspace lc (workspaceConfig m) workspaceName of
        None \<Rightarrow> (None, m)
      | Some workspace \<Rightarrow>
          (case getOrCreateClient workspace m of (client, m') \<Rightarrow> (Some client, m')))"

definition getInstanceContext ::
  "lowerCasing \<Rightarrow> WorkspaceApiClientManager \<Rightarrow> string option \<Rightarrow> InstanceContext option" where
  "getInstanceContext lc m workspaceName =
     (case getWorkspace lc (workspaceConfig m) workspaceName of
        None \<Rightarrow> None
      | Some workspace \<Rightarrow> Some (workspaceToInstanceContext workspace))"

definition isMultiWorkspace :: "WorkspaceApiClientManager \<Rightarrow> bool" where
  "isMultiWorkspace m = isMultiWorkspaceMode (workspaceConfig m)"

definition managerAvailableWorkspaces :: "WorkspaceApiClientManager \<Rightarrow> string list" where
  "managerAvailableWorkspaces m = getAvailableWorkspaces (workspaceConfig m)"

definition getDefaultWorkspace :: "WorkspaceApiClientManager \<Rightarrow> string option" where
  "getDefaultWorkspace m = defaultWorkspace (workspaceConfig m)"

definition noWorkspaceConfiguredMessage :: string where
  "noWorkspaceConfiguredMessage =
     ''No n8n workspace configured. Set N8N_URL_* and N8N_TOKEN_* env vars, or N8N_API_URL and N8N_API_KEY for single-instance mode.''"

definition getWorkspaceNotFoundError :: "WorkspaceApiClientManager \<Rightarrow> string option \<Rightarrow> string" where
  "getWorkspaceNotFoundError m workspaceName =
     (let available = managerAvailableWorkspaces m
      in if truthy workspaceName then
           ''Workspace '' @ apostrophe @ the workspaceName @ apostrophe @
           '' not found. Available workspaces: '' @
           (if join available '', '' \<noteq> [] then join available '', '' else ''none'')
         else noWorkspaceConfiguredMessage)"

record ParamSchema =
  schemaType :: string
  description :: string
  enum :: "string list"

definition getWorkspaceParamSchema :: "WorkspaceApiClientManager \<Rightarrow> ParamSchema option" where
  "getWorkspaceParamSchema m =
     (if \<not> isMultiWorkspace m then None
      else
        (let wss = managerAvailableWorkspaces m;
             defaultWs = getDefaultWorkspace m
         in Some \<lparr>schemaType = ''string'',
                  description = ''Workspace to use. Available: '' @ join wss '', '' @
                    (if truthy defaultWs then ''. Default: '' @ the defaultWs else []),
                  enum = wss\<rparr>))"

fun runCalls ::
  "WorkspaceConfig list \<Rightarrow> WorkspaceApiClientManager \<Rightarrow> clientRef list \<times> WorkspaceApiClientManager" where
  "runCalls [] m = ([], m)"
| "runCalls (w # ws) m =
     (case getOrCreateClient w m of (c, m') \<Rightarrow>
        (case runCalls ws m' of (cs, m'') \<Rightarrow> (c # cs, m'')))"

section \<open>Notions used in the statements\<close>

text \<open>
  An entry of the environment is accepted by the scan when its key starts with the URL
  prefix, its value is non-empty, the lower-cased suffix is non-empty and the paired token
  variable holds a non-empty value: these are the tests of the loop body. A candidate is
  valid, in the words of the specification, when its key starts with the URL prefix and its
  value, its suffix and the value of the paired token variable are non-empty; for a
  lower-casing that is empty only on the empty string the two notions agree.
  \<open>distinctValidSuffixCount\<close> counts the distinct suffixes of the valid candidates as they
  are written in the environment, before lower-casing.
\<close>

definition suffixOf :: "string \<times> string \<Rightarrow> string" where
  "suffixOf entry = substring (fst entry) (length urlPrefix)"

definition acceptedEntry :: "lowerCasing \<Rightarrow> environment \<Rightarrow> string \<times> string \<Rightarrow> bool" where
  "acceptedEntry lc env entry =
     (startsWith (fst entry) urlPrefix \<and> snd entry \<noteq> [] \<and> lc (suffixOf entry) \<noteq> [] \<and>
      truthy (map_of env (tokenPrefix @ suffixOf entry)))"

definition acceptedSuffixes :: "lowerCasing \<Rightarrow> environment \<Rightarrow> string list" where
  "acceptedSuffixes lc env = map suffixOf (filter (acceptedEntry lc env) env)"

definition validEntry :: "environment \<Rightarrow> string \<times> string \<Rightarrow> bool" where
  "validEntry env entry =
     (startsWith (fst entry) urlPrefix \<and> snd entry \<noteq> [] \<and> suffixOf entry \<noteq> [] \<and>
      truthy (map_of env (tokenPrefix @ suffixOf entry)))"

definition validSuffixes :: "environment \<Rightarrow> string list" where
  "validSuffixes env = map suffixOf (filter (validEntry env) env)"

definition distinctValidSuffixCount :: "environment \<Rightarrow> nat" where
  "distinctValidSuffixCount env = length (remdups (validSuffixes env))"

definition candidate :: "lowerCasing \<Rightarrow> environment \<Rightarrow> string \<times> string \<Rightarrow> WorkspaceConfig" where
  "candidate lc env entry =
     \<lparr>name = lc (suffixOf entry), url = snd entry,
      token = the (map_of env (tokenPrefix @ suffixOf entry)),
      urlEnvVar = fst entry, tokenEnvVar = tokenPrefix @ suffixOf entry\<rparr>"

definition unpairedEntry :: "environment \<Rightarrow> string \<times> string \<Rightarrow> bool" where
  "unpairedEntry env entry =
     (startsWith (fst entry) urlPrefix \<and> snd entry \<noteq> [] \<and>
      \<not> truthy (map_of env (tokenPrefix @ suffixOf entry)))"

definition warningFor :: "lowerCasing \<Rightarrow> string \<times> string \<Rightarrow> string" where
  "warningFor lc entry =
     missingTokenWarning (lc (suffixOf entry)) (tokenPrefix @ suffixOf entry)"

definition poolInv :: "WorkspaceApiClientManager \<Rightarrow> bool" where
  "poolInv m = (distinct (map fst (clients m)) \<and>
                debugLog m = map createdClientMessage (map fst (clients m)) \<and>
                length (heap m) = length (clients m))"

definition insertKey :: "string \<Rightarrow> string list \<Rightarrow> string list" where
  "insertKey k ks = (if k \<in> set ks then ks else ks @ [k])"

section \<open>Example environments\<close>

definition scenarioA :: environment where
  "scenarioA = [(''N8N_URL_PERSONAL'', ''https://a''), (''N8N_TOKEN_PERSONAL'', ''tok-a'')]"

definition scenarioB :: environment where
  "scenarioB = [(''N8N_URL_A'', ''u1''), (''N8N_TOKEN_A'', ''t1''),
                (''N8N_URL_B'', ''u2''), (''N8N_TOKEN_B'', ''t2''),
                (''N8N_DEFAULT_WORKSPACE'', ''B'')]"

definition scenarioC :: environment where
  "scenarioC = [(''N8N_URL_X'', ''u'')]"

definition envCaseCollision :: environment where
  "envCaseCollision = [(''N8N_URL_A'', ''u1''), (''N8N_TOKEN_A'', ''t1''),
                       (''N8N_URL_a'', ''u2''), (''N8N_TOKEN_a'', ''t2'')]"

definition envShadowed :: environment where
  "envShadowed = [(''N8N_URL_A'', ''u1''), (''N8N_URL_a'', ''u2''), (''N8N_TOKEN_a'', ''t2'')]"

definition envFallback :: environment where
  "envFallback = [(''N8N_API_URL'', ''https://n8n''), (''N8N_API_KEY'', ''key'')]"

definition envEmptyName :: environment where
  "envEmptyName = [(''N8N_URL_'', ''u'')]"

definition envEmptyNameToken :: environment where
  "envEmptyNameToken = [(''N8N_URL_'', ''u''), (''N8N_TOKEN_'', ''t'')]"

definition workspacePersonal :: WorkspaceConfig where
  "workspacePersonal = \<lparr>name = ''personal'', url = ''https://a'', token = ''tok-a'',
                         urlEnvVar = ''N8N_URL_PERSONAL'', tokenEnvVar = ''N8N_TOKEN_PERSONAL''\<rparr>"

definition workspaceA :: WorkspaceConfig where
  "workspaceA = \<lparr>name = ''a'', url = ''u1'', token = ''t1'',
                  urlEnvVar = ''N8N_URL_A'', tokenEnvVar = ''N8N_TOKEN_A''\<rparr>"

definition workspaceB :: WorkspaceConfig where
  "workspaceB = \<lparr>name = ''b'', url = ''u2'', token = ''t2'',
                  urlEnvVar = ''N8N_URL_B'', tokenEnvVar = ''N8N_TOKEN_B''\<rparr>"

section \<open>The example environments, evaluated\<close>

lemma scenarioA_load:
  "loadWorkspaceConfig asciiToLowerCase scenarioA =
     \<lparr>workspaces = [(''personal'', workspacePersonal)], defaultWorkspace = Some ''personal''\<rparr>"
  by code_simp

lemma scenarioB_load:
  "loadWorkspaceConfig asciiToLowerCase scenarioB =
     \<lparr>workspaces = [(''a'', workspaceA), (''b'', workspaceB)], defaultWorkspace = Some ''b''\<rparr>"
  by code_simp

lemma scenarioB_suffixes: "validSuffixes scenarioB = [''A'', ''B'']"
  by code_simp

lemma scenarioB_accepted: "acceptedSuffixes asciiToLowerCase scenarioB = [''A'', ''B'']"
  by code_simp

lemma scenarioC_load: "loadWorkspaceConfig asciiToLowerCase scenarioC = \<lparr>workspaces = [], defaultWorkspace = None\<rparr>"
  by code_simp

lemma envCaseCollision_suffixes: "validSuffixes envCaseCollision = [''A'', ''a'']"
  by code_simp

lemma envCaseCollision_keys: "map fst (workspaces (loadWorkspaceConfig asciiToLowerCase envCaseCollision)) = [''a'']"
  by code_simp

lemma envFallback_scan: "fst (scanEnvironment asciiToLowerCase envFallback) = []"
  by code_simp

lemma envShadowed_keys: "getAvailableWorkspaces (loadWorkspaceConfig asciiToLowerCase envShadowed) = [''a'']"
  by code_simp

lemma asciiToLowerCase_A: "asciiToLowerCase ''A'' = ''a''"
  by code_simp

lemma asciiToLowerCase_B: "asciiToLowerCase ''B'' = ''b''"
  by code_simp

lemma asciiToLowerCase_X: "asciiToLowerCase ''X'' = ''x''"
  by code_simp

lemma asciiToLowerCase_unknown: "asciiToLowerCase ''unknown'' = ''unknown''"
  by code_simp

section \<open>The client pool\<close>

lemma getOrCreateClient_stored:
  "map_of (clients (snd (getOrCreateClient w m))) (name w) = Some (fst (getOrCreateClient w m))"
  by (simp add: getOrCreateClient_def Let_def AList.update_conv' split: option.splits)

lemma getOrCreateClient_keeps:
  "map_of (clients m) n = Some c \<Longrightarrow> map_of (clients (snd (getOrCreateClient w m))) n = Some c"
  by (auto simp: getOrCreateClient_def Let_def AList.update_conv' split: option.splits)

lemma runCalls_Cons_snd:
  "snd (runCalls (w # ws) m) = snd (runCalls ws (snd (getOrCreateClient w m)))"
  by (simp add: case_prod_beta)

lemma runCalls_keeps:
  "map_of (clients m) n = Some c \<Longrightarrow> map_of (clients (snd (runCalls ws m))) n = Some c"
proof (induction ws arbitrary: m)
  case Nil
  then show ?case by simp
next
  case (Cons w ws)
  from getOrCreateClient_keeps[OF Cons.prems, of w]
  have "map_of (clients (snd (runCalls ws (snd (getOrCreateClient w m))))) n = Some c"
    by (rule Cons.IH)
  then show ?case by (simp only: runCalls_Cons_snd)
qed

lemma runCalls_result_stored:
  "i < length ws \<Longrightarrow>
   map_of (clients (snd (runCalls ws m))) (name (ws ! i)) = Some (fst (runCalls ws m) ! i)"
proof (induction ws arbitrary: m i)
  case Nil
  then show ?case by simp
next
  case (Cons w ws)
  obtain c m' where step: "getOrCreateClient w m = (c, m')" by (cases "getOrCreateClient w m")
  obtain cs m'' where rest: "runCalls ws m' = (cs, m'')" by (cases "runCalls ws m'")
  show ?case
  proof (cases i)
    case 0
    have "map_of (clients m') (name w) = Some c"
      using getOrCreateClient_stored[of w m] step by simp
    then have "map_of (clients (snd (runCalls ws m'))) (name w) = Some c"
      by (rule runCalls_keeps)
    with 0 step rest show ?thesis by simp
  next
    case (Suc k)
    with Cons.prems have "k < length ws" by simp
    from Cons.IH[OF this, of m'] Suc step rest show ?thesis by simp
  qed
qed

lemma poolInv_new: "poolInv (newManager config)"
  by (simp add: poolInv_def newManager_def)

lemma update_fresh: "k \<notin> fst ` set al \<Longrightarrow> AList.update k v al = al @ [(k, v)]"
  by (induction al) auto

lemma update_key_set: "fst ` set (AList.update k v al) = insert k (fst ` set al)"
  by (simp add: AList.dom_update)

lemma getOrCreateClient_inv:
  assumes "poolInv m"
  shows "poolInv (snd (getOrCreateClient w m))"
proof (cases "map_of (clients m) (name w)")
  case None
  then have "name w \<notin> fst ` set (clients m)" by (simp add: map_of_eq_None_iff)
  with assms None show ?thesis
    by (simp add: poolInv_def getOrCreateClient_def Let_def update_fresh)
next
  case (Some c)
  with assms show ?thesis by (simp add: getOrCreateClient_def)
qed

lemma getOrCreateClient_keys:
  "fst ` set (clients (snd (getOrCreateClient w m))) = insert (name w) (fst ` set (clients m))"
proof (cases "map_of (clients m) (name w)")
  case None
  then show ?thesis by (simp add: getOrCreateClient_def Let_def update_key_set)
next
  case (Some c)
  then have "(name w, c) \<in> set (clients m)" by (rule map_of_SomeD)
  then have "name w \<in> fst ` set (clients m)" by force
  with Some show ?thesis by (auto simp: getOrCreateClient_def)
qed

lemma runCalls_inv: "poolInv m \<Longrightarrow> poolInv (snd (runCalls ws m))"
proof (induction ws arbitrary: m)
  case Nil
  then show ?case by simp
next
  case (Cons w ws)
  from Cons.IH[OF getOrCreateClient_inv[OF Cons.prems, of w]]
  show ?case by (simp only: runCalls_Cons_snd)
qed

lemma runCalls_keys:
  "fst ` set (clients (snd (runCalls ws m))) = fst ` set (clients m) \<union> name ` set ws"
proof (induction ws arbitrary: m)
  case Nil
  then show ?case by simp
next
  case (Cons w ws)
  have "fst ` set (clients (snd (runCalls ws (snd (getOrCreateClient w m))))) =
        fst ` set (clients (snd (getOrCreateClient w m))) \<union> name ` set ws"
    by (rule Cons.IH)
  then show ?case
    by (simp only: runCalls_Cons_snd getOrCreateClient_keys) auto
qed

lemma createdClientMessage_inj: "createdClientMessage a = createdClientMessage b \<longleftrightarrow> a = b"
  by (simp add: createdClientMessage_def)

lemma count_list_map_inj_le:
  "distinct xs \<Longrightarrow> (\<And>a b. f a = f b \<Longrightarrow> a = b) \<Longrightarrow> count_list (map f xs) y \<le> 1"
proof (induction xs)
  case Nil
  then show ?case by simp
next
  case (Cons x xs)
  show ?case
  proof (cases "f x = y")
    case True
    have "y \<notin> set (map f xs)"
    proof
      assume "y \<in> set (map f xs)"
      then obtain z where "z \<in> set xs" "f z = y" by auto
      with True Cons.prems(2)[of x z] have "x \<in> set xs" by simp
      with Cons.prems(1) show False by simp
    qed
    then have "count_list (map f xs) y = 0" by (simp add: count_list_0_iff)
    with True show ?thesis by simp
  next
    case False
    with Cons show ?thesis by simp
  qed
qed

text \<open>
  Claim C1. Starting from a freshly constructed manager and running any sequence of
  \<open>getOrCreateClient\<close> calls, two calls whose workspace definitions carry the same name
  return the identical client reference; the creation message of any one name is logged at
  most once and the number of constructed clients equals the number of distinct names
  requested, so at most one client is constructed per name; and a call that immediately
  follows a call for the same name returns the same reference and leaves the manager
  (clients, allocated objects, log) unchanged.
\<close>

theorem getOrCreateClient_single_handle:
  assumes run: "runCalls ws (newManager config) = (cs, m)"
  shows "(\<forall>i<length ws. \<forall>j<length ws. name (ws ! i) = name (ws ! j) \<longrightarrow> cs ! i = cs ! j)
       \<and> (\<forall>n. count_list (debugLog m) (createdClientMessage n) \<le> 1)
       \<and> length (heap m) = card (name ` set ws)
       \<and> (\<forall>w w'. name w = name w' \<longrightarrow>
             getOrCreateClient w' (snd (getOrCreateClient w m)) =
               (fst (getOrCreateClient w m), snd (getOrCreateClient w m)))"
proof (intro conjI allI impI)
  fix i j
  assume i: "i < length ws" and j: "j < length ws" and same: "name (ws ! i) = name (ws ! j)"
  from runCalls_result_stored[OF i, of "newManager config"] run
  have "map_of (clients m) (name (ws ! i)) = Some (cs ! i)" by simp
  moreover from runCalls_result_stored[OF j, of "newManager config"] run
  have "map_of (clients m) (name (ws ! j)) = Some (cs ! j)" by simp
  ultimately show "cs ! i = cs ! j" using same by simp
next
  fix n
  from runCalls_inv[OF poolInv_new, of ws config] run have inv: "poolInv m" by simp
  then show "count_list (debugLog m) (createdClientMessage n) \<le> 1"
    using count_list_map_inj_le[of "map fst (clients m)" createdClientMessage]
    by (simp add: poolInv_def createdClientMessage_inj)
next
  from runCalls_inv[OF poolInv_new, of ws config] run have inv: "poolInv m" by simp
  from runCalls_keys[of ws "newManager config"] run
  have "fst ` set (clients m) = name ` set ws" by (simp add: newManager_def)
  moreover from inv have "distinct (map fst (clients m))" and "length (heap m) = length (clients m)"
    by (simp_all add: poolInv_def)
  then have "length (heap m) = card (fst ` set (clients m))"
    using distinct_card[of "map fst (clients m)"] by simp
  ultimately show "length (heap m) = card (name ` set ws)" by simp
next
  fix w w' :: WorkspaceConfig
  assume "name w = name w'"
  with getOrCreateClient_stored[of w m]
  show "getOrCreateClient w' (snd (getOrCreateClient w m)) =
               (fst (getOrCreateClient w m), snd (getOrCreateClient w m))"
    by (simp add: getOrCreateClient_def[of w'])
qed

theorem getOrCreateClient_single_handle_witness:
  "runCalls [workspaceA, workspaceB, workspaceA] (newManager (loadWorkspaceConfig asciiToLowerCase scenarioB)) =
     (fst (runCalls [workspaceA, workspaceB, workspaceA] (newManager (loadWorkspaceConfig asciiToLowerCase scenarioB))),
      snd (runCalls [workspaceA, workspaceB, workspaceA] (newManager (loadWorkspaceConfig asciiToLowerCase scenarioB))))
   \<and> fst (runCalls [workspaceA, workspaceB, workspaceA] (newManager (loadWorkspaceConfig asciiToLowerCase scenarioB))) ! 0
     = fst (runCalls [workspaceA, workspaceB, workspaceA] (newManager (loadWorkspaceConfig asciiToLowerCase scenarioB))) ! 2
   \<and> length (heap (snd (runCalls [workspaceA, workspaceB, workspaceA]
                          (newManager (loadWorkspaceConfig asciiToLowerCase scenarioB))))) = 2"
proof -
  let ?r = "runCalls [workspaceA, workspaceB, workspaceA] (newManager (loadWorkspaceConfig asciiToLowerCase scenarioB))"
  have h: "?r = (fst ?r, snd ?r)" by simp
  have names: "name workspaceA \<noteq> name workspaceB"
    by (simp add: workspaceA_def workspaceB_def)
  note inst = getOrCreateClient_single_handle[OF h]
  from inst have "\<forall>i<length [workspaceA, workspaceB, workspaceA].
                 \<forall>j<length [workspaceA, workspaceB, workspaceA].
                   name ([workspaceA, workspaceB, workspaceA] ! i) =
                   name ([workspaceA, workspaceB, workspaceA] ! j) \<longrightarrow> fst ?r ! i = fst ?r ! j"
    by (rule conjunct1)
  then have same: "fst ?r ! 0 = fst ?r ! 2"
    by (metis One_nat_def length_Cons list.size(3) nth_Cons_0 nth_Cons_Suc numeral_2_eq_2
          zero_less_Suc lessI Suc_lessD)
  from inst have "length (heap (snd ?r)) = card (name ` set [workspaceA, workspaceB, workspaceA])"
    by blast
  moreover from names have "card (name ` set [workspaceA, workspaceB, workspaceA]) = 2"
    by (auto simp: card_insert_if)
  ultimately have "length (heap (snd ?r)) = 2" by (simp only:)
  with h same show ?thesis by blast
qed

section \<open>Discovery\<close>

lemma asciiToLowerCase_Nil_iff: "(asciiToLowerCase s = []) = (s = [])"
  by (simp add: asciiToLowerCase_def)

lemma asciiToLowerChar_idem: "asciiToLowerChar (asciiToLowerChar c) = asciiToLowerChar c"
  by (auto simp: asciiToLowerChar_def Let_def)

lemma asciiToLowerCase_idem: "asciiToLowerCase (asciiToLowerCase s) = asciiToLowerCase s"
  by (simp add: asciiToLowerCase_def asciiToLowerChar_idem)

lemma accepted_is_valid:
  assumes "\<forall>s. (lc s = []) = (s = [])"
  shows "acceptedEntry lc env e = validEntry env e"
  using assms by (simp add: acceptedEntry_def validEntry_def)

lemma acceptedSuffixes_valid:
  assumes "\<forall>s. (lc s = []) = (s = [])"
  shows "acceptedSuffixes lc env = validSuffixes env"
proof -
  have "acceptedEntry lc env = validEntry env"
    by (rule ext) (rule accepted_is_valid[OF assms])
  then show ?thesis by (simp add: acceptedSuffixes_def validSuffixes_def)
qed

lemma scanEntry_valid:
  "acceptedEntry lc env e \<Longrightarrow>
   scanEntry lc env e (ws, l) = (AList.update (lc (suffixOf e)) (candidate lc env e) ws, l)"
  by (cases e) (simp add: scanEntry_def acceptedEntry_def suffixOf_def candidate_def Let_def)

lemma scanEntry_invalid:
  "\<not> acceptedEntry lc env e \<Longrightarrow> fst (scanEntry lc env e (ws, l)) = ws"
  by (cases e) (auto simp: scanEntry_def acceptedEntry_def suffixOf_def Let_def)

lemma scan_keys:
  "map fst (fst (fold (scanEntry lc env) es (ws, l))) =
   fold insertKey (map lc (map suffixOf (filter (acceptedEntry lc env) es))) (map fst ws)"
proof (induction es arbitrary: ws l)
  case Nil
  then show ?case by simp
next
  case (Cons e es)
  show ?case
  proof (cases "acceptedEntry lc env e")
    case True
    then show ?thesis
      by (simp add: scanEntry_valid Cons.IH AList.update_keys insertKey_def)
  next
    case False
    obtain ws' l' where step: "scanEntry lc env e (ws, l) = (ws', l')" by (cases "scanEntry lc env e (ws, l)")
    with scanEntry_invalid[OF False, of ws l] have "ws' = ws" by simp
    with False step show ?thesis by (simp add: Cons.IH)
  qed
qed

lemma fold_insertKey_set: "set (fold insertKey ks acc) = set acc \<union> set ks"
  by (induction ks arbitrary: acc) (auto simp: insertKey_def)

lemma fold_insertKey_distinct: "distinct acc \<Longrightarrow> distinct (fold insertKey ks acc)"
  by (induction ks arbitrary: acc) (auto simp: insertKey_def)

lemma fold_insertKey_hd: "acc \<noteq> [] \<Longrightarrow> hd (fold insertKey ks acc) = hd acc"
  by (induction ks arbitrary: acc) (auto simp: insertKey_def)

lemma fold_insertKey_first:
  "fold insertKey ks [] = [] \<longleftrightarrow> ks = []"
  "ks \<noteq> [] \<Longrightarrow> hd (fold insertKey ks []) = hd ks"
proof -
  show "fold insertKey ks [] = [] \<longleftrightarrow> ks = []"
    using fold_insertKey_set[of ks "[]"] by (metis set_empty sup_bot_left)
  show "ks \<noteq> [] \<Longrightarrow> hd (fold insertKey ks []) = hd ks"
    by (cases ks) (simp_all add: insertKey_def fold_insertKey_hd)
qed

lemma scanEnvironment_keys:
  "map fst (fst (scanEnvironment lc env)) = fold insertKey (map lc (acceptedSuffixes lc env)) []"
  by (simp add: scanEnvironment_def scan_keys acceptedSuffixes_def)

lemma update_set_subset: "set (AList.update k v al) \<subseteq> insert (k, v) (set al)"
  by (induction al) auto

lemma scan_entries:
  "(k, w) \<in> set (fst (fold (scanEntry lc env) es (ws, l))) \<Longrightarrow>
   (k, w) \<in> set ws \<or>
   (\<exists>e \<in> set es. acceptedEntry lc env e \<and> k = lc (suffixOf e) \<and> w = candidate lc env e)"
proof (induction es arbitrary: ws l)
  case Nil
  then show ?case by simp
next
  case (Cons e es)
  show ?case
  proof (cases "acceptedEntry lc env e")
    case True
    with Cons.prems
    have "(k, w) \<in> set (fst (fold (scanEntry lc env) es
            (AList.update (lc (suffixOf e)) (candidate lc env e) ws, l)))"
      by (simp add: scanEntry_valid)
    from Cons.IH[OF this]
    show ?thesis
    proof
      assume "(k, w) \<in> set (AList.update (lc (suffixOf e)) (candidate lc env e) ws)"
      with update_set_subset
      have "(k, w) = (lc (suffixOf e), candidate lc env e) \<or> (k, w) \<in> set ws" by fastforce
      with True show ?thesis by auto
    next
      assume "\<exists>e\<in>set es. acceptedEntry lc env e \<and> k = lc (suffixOf e) \<and> w = candidate lc env e"
      then show ?thesis by auto
    qed
  next
    case False
    obtain ws' l' where step: "scanEntry lc env e (ws, l) = (ws', l')"
      by (cases "scanEntry lc env e (ws, l)")
    with scanEntry_invalid[OF False, of ws l] have "ws' = ws" by simp
    with Cons.prems step have "(k, w) \<in> set (fst (fold (scanEntry lc env) es (ws, l')))" by simp
    from Cons.IH[OF this] show ?thesis by auto
  qed
qed

lemma scanEnvironment_entries:
  "(k, w) \<in> set (fst (scanEnvironment lc env)) \<Longrightarrow>
   \<exists>e \<in> set env. acceptedEntry lc env e \<and> k = lc (suffixOf e) \<and> w = candidate lc env e"
  using scan_entries[of k w lc env env "[]" "[]"] by (simp add: scanEnvironment_def)

lemma scanEnvironment_distinct: "distinct (map fst (fst (scanEnvironment lc env)))"
  by (simp add: scanEnvironment_keys fold_insertKey_distinct)

lemma scanEnvironment_key_set:
  "set (map fst (fst (scanEnvironment lc env))) = lc ` set (acceptedSuffixes lc env)"
  by (simp only: scanEnvironment_keys fold_insertKey_set) simp

lemma scanEnvironment_Nil_iff: "fst (scanEnvironment lc env) = [] \<longleftrightarrow> acceptedSuffixes lc env = []"
proof -
  have "fst (scanEnvironment lc env) = [] \<longleftrightarrow> map fst (fst (scanEnvironment lc env)) = []" by simp
  also have "\<dots> \<longleftrightarrow> map lc (acceptedSuffixes lc env) = []"
    by (simp only: scanEnvironment_keys fold_insertKey_first(1))
  finally show ?thesis by simp
qed

lemma workspaces_load:
  "workspaces (loadWorkspaceConfig lc env) = withFallback env (fst (scanEnvironment lc env))"
  by (simp add: loadWorkspaceConfig_def loadWorkspaceConfigLogged_def Let_def case_prod_beta)

lemma defaultWorkspace_load:
  "defaultWorkspace (loadWorkspaceConfig lc env) = chooseDefault lc env (workspaces (loadWorkspaceConfig lc env))"
  by (simp add: loadWorkspaceConfig_def loadWorkspaceConfigLogged_def Let_def case_prod_beta)

lemma loadWarnings_scan: "loadWarnings lc env = snd (scanEnvironment lc env)"
  by (simp add: loadWarnings_def loadWorkspaceConfigLogged_def Let_def case_prod_beta)

lemma withFallback_nonempty: "ws \<noteq> [] \<Longrightarrow> withFallback env ws = ws"
  by (simp add: withFallback_def)

lemma withFallback_Nil:
  "withFallback env [] =
     (if truthy (map_of env ''N8N_API_URL'') \<and> truthy (map_of env ''N8N_API_KEY'')
      then [(''default'',
             \<lparr>name = ''default'', url = the (map_of env ''N8N_API_URL''),
              token = the (map_of env ''N8N_API_KEY''),
              urlEnvVar = ''N8N_API_URL'', tokenEnvVar = ''N8N_API_KEY''\<rparr>)]
      else [])"
  by (simp add: withFallback_def Let_def)

lemma truthy_the: "truthy v \<Longrightarrow> the v \<noteq> []"
  by (cases v) (simp_all add: truthy_def)

lemma load_entry_cases:
  assumes "(k, w) \<in> set (workspaces (loadWorkspaceConfig lc env))"
  shows "(\<exists>e \<in> set env. acceptedEntry lc env e \<and> k = lc (suffixOf e) \<and> w = candidate lc env e)
       \<or> (acceptedSuffixes lc env = [] \<and> k = ''default'' \<and> name w = ''default'' \<and>
          truthy (map_of env ''N8N_API_URL'') \<and> truthy (map_of env ''N8N_API_KEY'') \<and>
          url w = the (map_of env ''N8N_API_URL'') \<and> token w = the (map_of env ''N8N_API_KEY'') \<and>
          urlEnvVar w = ''N8N_API_URL'' \<and> tokenEnvVar w = ''N8N_API_KEY'')"
proof (cases "fst (scanEnvironment lc env) = []")
  case True
  then have "acceptedSuffixes lc env = []" by (simp add: scanEnvironment_Nil_iff)
  with assms True show ?thesis
    by (auto simp: workspaces_load withFallback_Nil split: if_splits)
next
  case False
  with assms have "(k, w) \<in> set (fst (scanEnvironment lc env))"
    by (simp add: workspaces_load withFallback_nonempty)
  then show ?thesis by (blast dest: scanEnvironment_entries)
qed

lemma load_entry_wellformed:
  assumes "(k, w) \<in> set (workspaces (loadWorkspaceConfig lc env))"
  shows "name w = k \<and> k \<noteq> [] \<and> url w \<noteq> [] \<and> token w \<noteq> []"
  using load_entry_cases[OF assms]
proof
  assume "\<exists>e \<in> set env. acceptedEntry lc env e \<and> k = lc (suffixOf e) \<and> w = candidate lc env e"
  then obtain e where "acceptedEntry lc env e" "k = lc (suffixOf e)" "w = candidate lc env e"
    by blast
  then show ?thesis
    by (simp add: candidate_def acceptedEntry_def truthy_the)
next
  assume "acceptedSuffixes lc env = [] \<and> k = ''default'' \<and> name w = ''default'' \<and>
          truthy (map_of env ''N8N_API_URL'') \<and> truthy (map_of env ''N8N_API_KEY'') \<and>
          url w = the (map_of env ''N8N_API_URL'') \<and> token w = the (map_of env ''N8N_API_KEY'') \<and>
          urlEnvVar w = ''N8N_API_URL'' \<and> tokenEnvVar w = ''N8N_API_KEY''"
  then show ?thesis by (simp add: truthy_the)
qed

lemma load_keys_nonempty:
  "k \<in> set (map fst (workspaces (loadWorkspaceConfig lc env))) \<Longrightarrow> k \<noteq> []"
  using load_entry_wellformed by fastforce

lemma load_distinct: "distinct (map fst (workspaces (loadWorkspaceConfig lc env)))"
proof (cases "fst (scanEnvironment lc env) = []")
  case True
  then show ?thesis by (simp add: workspaces_load withFallback_Nil)
next
  case False
  then show ?thesis by (simp add: workspaces_load withFallback_nonempty scanEnvironment_distinct)
qed

lemma load_first_key:
  assumes "workspaces (loadWorkspaceConfig lc env) \<noteq> []"
  shows "hd (map fst (workspaces (loadWorkspaceConfig lc env))) =
         (if acceptedSuffixes lc env = [] then ''default'' else lc (hd (acceptedSuffixes lc env)))"
proof (cases "acceptedSuffixes lc env = []")
  case True
  then have "fst (scanEnvironment lc env) = []" by (simp add: scanEnvironment_Nil_iff)
  with assms True show ?thesis by (simp add: workspaces_load withFallback_Nil split: if_splits)
next
  case False
  then have ne: "fst (scanEnvironment lc env) \<noteq> []" by (simp add: scanEnvironment_Nil_iff)
  from False have "map lc (acceptedSuffixes lc env) \<noteq> []" by simp
  then have "hd (fold insertKey (map lc (acceptedSuffixes lc env)) []) =
             hd (map lc (acceptedSuffixes lc env))"
    by (rule fold_insertKey_first(2))
  with False ne show ?thesis
    by (simp add: workspaces_load withFallback_nonempty scanEnvironment_keys hd_map)
qed

lemma firstKey_hd: "ws \<noteq> [] \<Longrightarrow> firstKey ws = Some (hd (map fst ws))"
  by (cases ws) (auto simp: firstKey_def)

lemma defaultWorkspace_rule:
  "defaultWorkspace (loadWorkspaceConfig lc env) =
     (if \<exists>d. map_of env ''N8N_DEFAULT_WORKSPACE'' = Some d \<and>
              lc d \<in> set (map fst (workspaces (loadWorkspaceConfig lc env)))
      then map_option lc (map_of env ''N8N_DEFAULT_WORKSPACE'')
      else if map fst (workspaces (loadWorkspaceConfig lc env)) \<noteq> []
      then Some (hd (map fst (workspaces (loadWorkspaceConfig lc env))))
      else None)"
proof -
  let ?cfg = "loadWorkspaceConfig lc env"
  let ?ws = "workspaces ?cfg"
  let ?sel = "map_of env ''N8N_DEFAULT_WORKSPACE''"
  have guard: "(truthy (map_option lc ?sel) \<and> has ?ws (the (map_option lc ?sel)))
               \<longleftrightarrow> (\<exists>d. ?sel = Some d \<and> lc d \<in> set (map fst ?ws))"
  proof (cases ?sel)
    case None
    then show ?thesis by (simp add: truthy_def)
  next
    case (Some d)
    have "lc d \<in> set (map fst ?ws) \<Longrightarrow> lc d \<noteq> []"
      by (rule load_keys_nonempty)
    with Some show ?thesis by (auto simp: truthy_def has_def)
  qed
  show ?thesis
  proof (cases "\<exists>d. ?sel = Some d \<and> lc d \<in> set (map fst ?ws)")
    case True
    with guard have "chooseDefault lc env ?ws = map_option lc ?sel"
      by (simp only: chooseDefault_def Let_def if_True)
    with True show ?thesis by (simp only: defaultWorkspace_load if_True)
  next
    case False
    with guard have "chooseDefault lc env ?ws = (if length ?ws > 0 then firstKey ?ws else None)"
      by (simp only: chooseDefault_def Let_def if_False)
    then have "chooseDefault lc env ?ws =
                 (if map fst ?ws \<noteq> [] then Some (hd (map fst ?ws)) else None)"
      by (simp add: firstKey_hd)
    with False show ?thesis by (simp only: defaultWorkspace_load if_False)
  qed
qed

lemma defaultWorkspace_is_key:
  assumes d: "defaultWorkspace (loadWorkspaceConfig lc env) = Some d"
  shows "d \<in> set (map fst (workspaces (loadWorkspaceConfig lc env)))"
proof -
  let ?cfg = "loadWorkspaceConfig lc env"
  let ?ws = "workspaces ?cfg"
  let ?sel = "map_of env ''N8N_DEFAULT_WORKSPACE''"
  have hd_in: "?ws \<noteq> [] \<Longrightarrow> hd (map fst ?ws) \<in> set (map fst ?ws)"
    by (cases ?ws) simp_all
  show ?thesis
  proof (cases "\<exists>d. ?sel = Some d \<and> lc d \<in> set (map fst ?ws)")
    case True
    then obtain d' where d': "?sel = Some d'" "lc d' \<in> set (map fst ?ws)" by blast
    from True defaultWorkspace_rule[of lc env]
    have "defaultWorkspace ?cfg = map_option lc ?sel"
      by (simp only: if_True)
    with d d' show ?thesis by simp
  next
    case False
    with defaultWorkspace_rule[of lc env]
    have "defaultWorkspace ?cfg =
            (if map fst ?ws \<noteq> [] then Some (hd (map fst ?ws)) else None)"
      by (simp only: if_False)
    with d hd_in show ?thesis by (cases "?ws = []") simp_all
  qed
qed

lemma scanEntry_warnings:
  "snd (scanEntry lc env e (ws, l)) = (if unpairedEntry env e then l @ [warningFor lc e] else l)"
  by (cases e) (simp add: scanEntry_def unpairedEntry_def warningFor_def suffixOf_def Let_def)

lemma scan_warnings:
  "snd (fold (scanEntry lc env) es (ws, l)) = l @ map (warningFor lc) (filter (unpairedEntry env) es)"
proof (induction es arbitrary: ws l)
  case Nil
  then show ?case by simp
next
  case (Cons e es)
  obtain ws' l' where step: "scanEntry lc env e (ws, l) = (ws', l')"
    by (cases "scanEntry lc env e (ws, l)")
  with scanEntry_warnings[of lc env e ws l]
  have "l' = (if unpairedEntry env e then l @ [warningFor lc e] else l)" by simp
  with step show ?case by (simp add: Cons.IH)
qed

lemma loadWarnings_eq: "loadWarnings lc env = map (warningFor lc) (filter (unpairedEntry env) env)"
  by (simp add: loadWarnings_scan scanEnvironment_def scan_warnings)

lemma suffixOf_prefixed: "suffixOf (urlPrefix @ sfx, v) = sfx"
  by (simp add: suffixOf_def substring_def)

lemma startsWith_prefixed: "startsWith (urlPrefix @ sfx) urlPrefix"
  by (simp add: startsWith_def)

lemma fallback_var_not_prefixed: "''N8N_API_URL'' \<noteq> urlPrefix @ sfx"
  by (simp add: urlPrefix_def)

lemma load_key_set:
  "set (map fst (workspaces (loadWorkspaceConfig lc env))) =
     (if acceptedSuffixes lc env = []
      then (if truthy (map_of env ''N8N_API_URL'') \<and> truthy (map_of env ''N8N_API_KEY'')
            then {''default''} else {})
      else lc ` set (acceptedSuffixes lc env))"
proof (cases "acceptedSuffixes lc env = []")
  case True
  then have "fst (scanEnvironment lc env) = []" by (simp add: scanEnvironment_Nil_iff)
  with True show ?thesis by (simp add: workspaces_load withFallback_Nil)
next
  case False
  then have "fst (scanEnvironment lc env) \<noteq> []" by (simp add: scanEnvironment_Nil_iff)
  then have "workspaces (loadWorkspaceConfig lc env) = fst (scanEnvironment lc env)"
    by (simp add: workspaces_load withFallback_nonempty)
  with False scanEnvironment_key_set[of lc env] show ?thesis by (simp only: if_False)
qed

lemma unpaired_not_stored:
  assumes "\<not> truthy (map_of env (tokenPrefix @ sfx))"
    and "(k, w) \<in> set (workspaces (loadWorkspaceConfig lc env))"
  shows "urlEnvVar w \<noteq> urlPrefix @ sfx"
  using load_entry_cases[OF assms(2)]
proof
  assume "\<exists>e \<in> set env. acceptedEntry lc env e \<and> k = lc (suffixOf e) \<and> w = candidate lc env e"
  then obtain e where e: "acceptedEntry lc env e" "w = candidate lc env e" by blast
  show ?thesis
  proof
    assume "urlEnvVar w = urlPrefix @ sfx"
    with e have "fst e = urlPrefix @ sfx" by (simp add: candidate_def)
    then have "suffixOf e = sfx" by (simp add: suffixOf_def substring_def)
    with e(1) have "truthy (map_of env (tokenPrefix @ sfx))" by (simp add: acceptedEntry_def)
    with assms(1) show False by simp
  qed
next
  assume "acceptedSuffixes lc env = [] \<and> k = ''default'' \<and> name w = ''default'' \<and>
          truthy (map_of env ''N8N_API_URL'') \<and> truthy (map_of env ''N8N_API_KEY'') \<and>
          url w = the (map_of env ''N8N_API_URL'') \<and> token w = the (map_of env ''N8N_API_KEY'') \<and>
          urlEnvVar w = ''N8N_API_URL'' \<and> tokenEnvVar w = ''N8N_API_KEY''"
  then show ?thesis by (simp add: fallback_var_not_prefixed)
qed

lemma warning_empty_suffix:
  assumes "missingTokenWarning (lc s) (tokenPrefix @ s) = missingTokenWarning [] tokenPrefix"
  shows "s = []"
proof -
  from assms have "length (missingTokenWarning (lc s) (tokenPrefix @ s)) =
                   length (missingTokenWarning [] tokenPrefix)"
    by (rule arg_cong)
  then show ?thesis by (simp add: missingTokenWarning_def)
qed

text \<open>
  Claim C2 (as amended). Let the lower-casing be empty only on the empty string. When the
  environment holds at least one valid URL/credential pair, the number of entries of the
  loaded registry equals the number of distinct lower-cased valid suffixes, the keys are
  pairwise distinct, and the keys are exactly the lower-cased valid suffixes; so every key
  is lower-case: it is the result of lower-casing, and it is unchanged by lower-casing when
  lower-casing twice is lower-casing once. (The count of distinct suffixes before
  lower-casing can be larger: two variables whose suffixes have the same lower-casing share
  one entry.)
\<close>

theorem loadWorkspaceConfig_size_lower:
  assumes lcE: "\<forall>s. (lc s = []) = (s = [])"
    and valid: "validSuffixes env \<noteq> []"
  shows "length (workspaces (loadWorkspaceConfig lc env)) = card (lc ` set (validSuffixes env))
       \<and> distinct (map fst (workspaces (loadWorkspaceConfig lc env)))
       \<and> set (map fst (workspaces (loadWorkspaceConfig lc env))) = lc ` set (validSuffixes env)
       \<and> ((\<forall>s. lc (lc s) = lc s) \<longrightarrow>
            (\<forall>k \<in> set (map fst (workspaces (loadWorkspaceConfig lc env))). lc k = k))"
proof -
  have acc: "acceptedSuffixes lc env = validSuffixes env"
    using lcE by (rule acceptedSuffixes_valid)
  with valid have ne: "fst (scanEnvironment lc env) \<noteq> []" by (simp add: scanEnvironment_Nil_iff)
  then have ws: "workspaces (loadWorkspaceConfig lc env) = fst (scanEnvironment lc env)"
    by (simp add: workspaces_load withFallback_nonempty)
  have keys: "set (map fst (fst (scanEnvironment lc env))) = lc ` set (validSuffixes env)"
    using scanEnvironment_key_set[of lc env] by (simp only: acc)
  have "length (fst (scanEnvironment lc env)) = length (map fst (fst (scanEnvironment lc env)))" by simp
  also have "\<dots> = card (set (map fst (fst (scanEnvironment lc env))))"
    using scanEnvironment_distinct[of lc env] by (rule distinct_card[symmetric])
  also have "\<dots> = card (lc ` set (validSuffixes env))"
    by (simp only: keys)
  finally have size: "length (fst (scanEnvironment lc env)) = card (lc ` set (validSuffixes env))" .
  have fixed: "(\<forall>s. lc (lc s) = lc s) \<longrightarrow>
               (\<forall>k \<in> set (map fst (fst (scanEnvironment lc env))). lc k = k)"
    by (simp only: keys) auto
  show ?thesis
    unfolding ws
    by (intro conjI) (rule size, rule scanEnvironment_distinct, rule keys, rule fixed)
qed

theorem loadWorkspaceConfig_size_lower_witness:
  "(\<forall>s. (asciiToLowerCase s = []) = (s = [])) \<and>
   validSuffixes scenarioB \<noteq> [] \<and>
   length (workspaces (loadWorkspaceConfig asciiToLowerCase scenarioB)) = 2 \<and>
   distinct (map fst (workspaces (loadWorkspaceConfig asciiToLowerCase scenarioB))) \<and>
   set (map fst (workspaces (loadWorkspaceConfig asciiToLowerCase scenarioB))) = {''a'', ''b''} \<and>
   (\<forall>s. asciiToLowerCase (asciiToLowerCase s) = asciiToLowerCase s) \<and>
   asciiToLowerCase ''a'' = ''a'' \<and> asciiToLowerCase ''b'' = ''b''"
proof -
  have h0: "\<forall>s. (asciiToLowerCase s = []) = (s = [])"
    by (simp add: asciiToLowerCase_Nil_iff)
  have h: "validSuffixes scenarioB \<noteq> []" by (simp add: scenarioB_suffixes)
  have idem: "\<forall>s. asciiToLowerCase (asciiToLowerCase s) = asciiToLowerCase s"
    by (simp add: asciiToLowerCase_idem)
  note inst = loadWorkspaceConfig_size_lower[OF h0 h]
  have img: "asciiToLowerCase ` set (validSuffixes scenarioB) = {''a'', ''b''}"
    by (simp add: scenarioB_suffixes asciiToLowerCase_A asciiToLowerCase_B)
  have count: "card (asciiToLowerCase ` set (validSuffixes scenarioB)) = 2"
    by (simp add: img)
  from inst count have len: "length (workspaces (loadWorkspaceConfig asciiToLowerCase scenarioB)) = 2"
    by (simp only:)
  from inst have dist: "distinct (map fst (workspaces (loadWorkspaceConfig asciiToLowerCase scenarioB)))"
    by (rule conjunct2[THEN conjunct1])
  from inst have "set (map fst (workspaces (loadWorkspaceConfig asciiToLowerCase scenarioB))) =
                  asciiToLowerCase ` set (validSuffixes scenarioB)"
    by (rule conjunct2[THEN conjunct2, THEN conjunct1])
  with img have keys: "set (map fst (workspaces (loadWorkspaceConfig asciiToLowerCase scenarioB))) =
                       {''a'', ''b''}"
    by (simp only:)
  from inst have "(\<forall>s. asciiToLowerCase (asciiToLowerCase s) = asciiToLowerCase s) \<longrightarrow>
      (\<forall>k \<in> set (map fst (workspaces (loadWorkspaceConfig asciiToLowerCase scenarioB))).
          asciiToLowerCase k = k)"
    by (rule conjunct2[THEN conjunct2, THEN conjunct2])
  with idem have "\<forall>k \<in> set (map fst (workspaces (loadWorkspaceConfig asciiToLowerCase scenarioB))).
          asciiToLowerCase k = k"
    by (rule rev_mp)
  then have "\<forall>k \<in> {''a'', ''b''}. asciiToLowerCase k = k" by (simp only: keys)
  then have fixed: "asciiToLowerCase ''a'' = ''a'' \<and> asciiToLowerCase ''b'' = ''b''" by blast
  from h0 h len dist keys idem fixed show ?thesis by blast
qed

theorem distinct_suffix_count_counterexample:
  "validSuffixes envCaseCollision \<noteq> [] \<and>
   length (workspaces (loadWorkspaceConfig asciiToLowerCase envCaseCollision)) = 1 \<and>
   distinctValidSuffixCount envCaseCollision = 2"
proof -
  have "length (map fst (workspaces (loadWorkspaceConfig asciiToLowerCase envCaseCollision))) = 1"
    by (simp only: envCaseCollision_keys) simp
  then show ?thesis
    by (simp add: distinctValidSuffixCount_def envCaseCollision_suffixes)
qed

text \<open>
  Claim C3. The default of the loaded registry is the lower-cased value of
  \<open>N8N_DEFAULT_WORKSPACE\<close> when that names an entry, otherwise the first key of the
  registry when there is one, otherwise none. A default is always a key of the registry.
  The first key is the lower-cased suffix of the first entry the scan accepts, or
  \<open>default\<close> when the entry comes from the fallback pair. This holds for every
  lower-casing.
\<close>

theorem defaultWorkspace_selection:
  "defaultWorkspace (loadWorkspaceConfig lc env) =
     (if \<exists>d. map_of env ''N8N_DEFAULT_WORKSPACE'' = Some d \<and>
              lc d \<in> set (getAvailableWorkspaces (loadWorkspaceConfig lc env))
      then map_option lc (map_of env ''N8N_DEFAULT_WORKSPACE'')
      else if getAvailableWorkspaces (loadWorkspaceConfig lc env) \<noteq> []
      then Some (hd (getAvailableWorkspaces (loadWorkspaceConfig lc env)))
      else None)
   \<and> (\<forall>d. defaultWorkspace (loadWorkspaceConfig lc env) = Some d \<longrightarrow>
          d \<in> set (getAvailableWorkspaces (loadWorkspaceConfig lc env)))
   \<and> (getAvailableWorkspaces (loadWorkspaceConfig lc env) \<noteq> [] \<longrightarrow>
        hd (getAvailableWorkspaces (loadWorkspaceConfig lc env)) =
          (if acceptedSuffixes lc env = [] then ''default'' else lc (hd (acceptedSuffixes lc env))))"
proof -
  let ?ws = "workspaces (loadWorkspaceConfig lc env)"
  have member: "\<forall>d. defaultWorkspace (loadWorkspaceConfig lc env) = Some d \<longrightarrow>
                  d \<in> set (map fst ?ws)"
    using defaultWorkspace_is_key by blast
  have first: "map fst ?ws \<noteq> [] \<longrightarrow> hd (map fst ?ws) =
          (if acceptedSuffixes lc env = [] then ''default'' else lc (hd (acceptedSuffixes lc env)))"
    using load_first_key[of lc env] by simp
  show ?thesis
    unfolding getAvailableWorkspaces_def
    by (intro conjI) (rule defaultWorkspace_rule, rule member, rule first)
qed

theorem defaultWorkspace_selection_witness:
  "map_of scenarioB ''N8N_DEFAULT_WORKSPACE'' = Some ''B'' \<and>
   getAvailableWorkspaces (loadWorkspaceConfig asciiToLowerCase scenarioB) = [''a'', ''b''] \<and>
   defaultWorkspace (loadWorkspaceConfig asciiToLowerCase scenarioB) = Some ''b'' \<and>
   acceptedSuffixes asciiToLowerCase scenarioB = [''A'', ''B''] \<and>
   hd (getAvailableWorkspaces (loadWorkspaceConfig asciiToLowerCase scenarioB)) = ''a''"
proof -
  have sel: "map_of scenarioB ''N8N_DEFAULT_WORKSPACE'' = Some ''B''"
    by (simp add: scenarioB_def)
  have keys: "getAvailableWorkspaces (loadWorkspaceConfig asciiToLowerCase scenarioB) = [''a'', ''b'']"
    by (simp add: getAvailableWorkspaces_def scenarioB_load)
  have mem: "asciiToLowerCase ''B'' \<in> set (getAvailableWorkspaces (loadWorkspaceConfig asciiToLowerCase scenarioB))"
    by (simp add: keys asciiToLowerCase_B)
  have ne: "getAvailableWorkspaces (loadWorkspaceConfig asciiToLowerCase scenarioB) \<noteq> []"
    by (simp add: keys)
  have sfx: "acceptedSuffixes asciiToLowerCase scenarioB \<noteq> []" by (simp add: scenarioB_accepted)
  from sel mem have ex: "\<exists>d. map_of scenarioB ''N8N_DEFAULT_WORKSPACE'' = Some d \<and>
      asciiToLowerCase d \<in> set (getAvailableWorkspaces (loadWorkspaceConfig asciiToLowerCase scenarioB))" by blast
  note inst = defaultWorkspace_selection[of asciiToLowerCase scenarioB]
  from inst ex sel
  have "defaultWorkspace (loadWorkspaceConfig asciiToLowerCase scenarioB) = Some (asciiToLowerCase ''B'')"
    by (simp only: if_True option.map)
  then have dflt: "defaultWorkspace (loadWorkspaceConfig asciiToLowerCase scenarioB) = Some ''b''"
    by (simp only: asciiToLowerCase_B)
  from inst
  have "getAvailableWorkspaces (loadWorkspaceConfig asciiToLowerCase scenarioB) \<noteq> [] \<longrightarrow>
        hd (getAvailableWorkspaces (loadWorkspaceConfig asciiToLowerCase scenarioB)) =
          (if acceptedSuffixes asciiToLowerCase scenarioB = [] then ''default''
           else asciiToLowerCase (hd (acceptedSuffixes asciiToLowerCase scenarioB)))"
    by (rule conjunct2[THEN conjunct2])
  with ne sfx
  have "hd (getAvailableWorkspaces (loadWorkspaceConfig asciiToLowerCase scenarioB)) =
        asciiToLowerCase (hd (acceptedSuffixes asciiToLowerCase scenarioB))"
    by (simp only: if_False simp_thms)
  then have first: "hd (getAvailableWorkspaces (loadWorkspaceConfig asciiToLowerCase scenarioB)) = ''a''"
    by (simp add: scenarioB_accepted asciiToLowerCase_A)
  from sel keys dflt scenarioB_accepted first show ?thesis by blast
qed

text \<open>
  Claim C4 (as amended). When a variable \<open>N8N_URL_<NAME>\<close> has a non-empty value and its
  paired token variable is missing or empty, no entry is created from that candidate: no
  entry of the loaded registry carries that variable as its \<open>urlEnvVar\<close>, every stored
  entry has a non-empty url and token, the suffix is not among the accepted suffixes, and
  the missing-token warning naming the lower-cased suffix and the token variable is logged.
  The lower-cased name is a key of the registry exactly when some accepted entry
  lower-cases to the same name or, with no accepted entry at all, the name is
  \<open>default\<close> and the fallback pair is set. This holds for every lower-casing.
\<close>

theorem unpaired_url_dropped:
  assumes "(urlPrefix @ sfx, v) \<in> set env" and "v \<noteq> []"
    and "\<not> truthy (map_of env (tokenPrefix @ sfx))"
  shows "(\<forall>(k, w) \<in> set (workspaces (loadWorkspaceConfig lc env)).
            urlEnvVar w \<noteq> urlPrefix @ sfx \<and> url w \<noteq> [] \<and> token w \<noteq> [])
       \<and> missingTokenWarning (lc sfx) (tokenPrefix @ sfx) \<in> set (loadWarnings lc env)
       \<and> (lc sfx \<in> set (getAvailableWorkspaces (loadWorkspaceConfig lc env)) \<longleftrightarrow>
            (if acceptedSuffixes lc env = []
             then lc sfx = ''default'' \<and>
                  truthy (map_of env ''N8N_API_URL'') \<and> truthy (map_of env ''N8N_API_KEY'')
             else lc sfx \<in> lc ` set (acceptedSuffixes lc env)))
       \<and> sfx \<notin> set (acceptedSuffixes lc env)"
proof (intro conjI)
  show "\<forall>(k, w) \<in> set (workspaces (loadWorkspaceConfig lc env)).
            urlEnvVar w \<noteq> urlPrefix @ sfx \<and> url w \<noteq> [] \<and> token w \<noteq> []"
    using unpaired_not_stored[OF assms(3)] load_entry_wellformed[of _ _ lc env] by blast
next
  from assms have "unpairedEntry env (urlPrefix @ sfx, v)"
    by (simp add: unpairedEntry_def startsWith_prefixed suffixOf_prefixed)
  with assms(1) have "warningFor lc (urlPrefix @ sfx, v) \<in> set (loadWarnings lc env)"
    by (simp add: loadWarnings_eq)
  then show "missingTokenWarning (lc sfx) (tokenPrefix @ sfx) \<in> set (loadWarnings lc env)"
    by (simp add: warningFor_def suffixOf_prefixed)
next
  show "lc sfx \<in> set (getAvailableWorkspaces (loadWorkspaceConfig lc env)) \<longleftrightarrow>
            (if acceptedSuffixes lc env = []
             then lc sfx = ''default'' \<and>
                  truthy (map_of env ''N8N_API_URL'') \<and> truthy (map_of env ''N8N_API_KEY'')
             else lc sfx \<in> lc ` set (acceptedSuffixes lc env))"
    unfolding getAvailableWorkspaces_def load_key_set by simp
next
  show "sfx \<notin> set (acceptedSuffixes lc env)"
  proof
    assume "sfx \<in> set (acceptedSuffixes lc env)"
    then obtain e where "acceptedEntry lc env e" "suffixOf e = sfx"
      by (auto simp: acceptedSuffixes_def)
    then have "truthy (map_of env (tokenPrefix @ sfx))" by (auto simp: acceptedEntry_def)
    with assms(3) show False by simp
  qed
qed

theorem unpaired_url_dropped_witness:
  "(urlPrefix @ ''X'', ''u'') \<in> set scenarioC
   \<and> \<not> truthy (map_of scenarioC (tokenPrefix @ ''X''))
   \<and> missingTokenWarning ''x'' ''N8N_TOKEN_X'' \<in> set (loadWarnings asciiToLowerCase scenarioC)
   \<and> ''x'' \<notin> set (getAvailableWorkspaces (loadWorkspaceConfig asciiToLowerCase scenarioC))
   \<and> ''X'' \<notin> set (acceptedSuffixes asciiToLowerCase scenarioC)"
proof -
  have h1: "(urlPrefix @ ''X'', ''u'') \<in> set scenarioC"
    by (simp add: scenarioC_def urlPrefix_def)
  have h2: "''u'' \<noteq> []" by simp
  have h3: "\<not> truthy (map_of scenarioC (tokenPrefix @ ''X''))"
    by (simp add: scenarioC_def tokenPrefix_def truthy_def)
  note inst = unpaired_url_dropped[OF h1 h2 h3, of asciiToLowerCase]
  have absent: "''x'' \<notin> set (getAvailableWorkspaces (loadWorkspaceConfig asciiToLowerCase scenarioC))"
    by (simp add: scenarioC_load getAvailableWorkspaces_def)
  from inst have "missingTokenWarning (asciiToLowerCase ''X'') (tokenPrefix @ ''X'')
                  \<in> set (loadWarnings asciiToLowerCase scenarioC)"
    by (rule conjunct2[THEN conjunct1])
  then have warned: "missingTokenWarning ''x'' ''N8N_TOKEN_X''
                     \<in> set (loadWarnings asciiToLowerCase scenarioC)"
    by (simp add: asciiToLowerCase_X tokenPrefix_def)
  from inst have "''X'' \<notin> set (acceptedSuffixes asciiToLowerCase scenarioC)"
    by (rule conjunct2[THEN conjunct2, THEN conjunct2])
  with warned show ?thesis using h1 h3 absent by blast
qed

theorem unpaired_name_present_counterexample:
  "(''N8N_URL_A'', ''u1'') \<in> set envShadowed
   \<and> map_of envShadowed ''N8N_TOKEN_A'' = None
   \<and> asciiToLowerCase ''A'' = ''a''
   \<and> ''a'' \<in> set (getAvailableWorkspaces (loadWorkspaceConfig asciiToLowerCase envShadowed))"
  by (simp add: envShadowed_keys asciiToLowerCase_A) (simp add: envShadowed_def)

text \<open>
  Claim C5. When the scan yields no entry and both \<open>N8N_API_URL\<close> and
  \<open>N8N_API_KEY\<close> are set to non-empty values, the loaded registry consists of exactly
  one entry, keyed \<open>default\<close>, carrying those two values. This holds for every
  lower-casing.
\<close>

theorem fallback_default_entry:
  assumes "fst (scanEnvironment lc env) = []"
    and "map_of env ''N8N_API_URL'' = Some u" and "u \<noteq> []"
    and "map_of env ''N8N_API_KEY'' = Some k" and "k \<noteq> []"
  shows "workspaces (loadWorkspaceConfig lc env) =
           [(''default'', \<lparr>name = ''default'', url = u, token = k,
                           urlEnvVar = ''N8N_API_URL'', tokenEnvVar = ''N8N_API_KEY''\<rparr>)]"
  using assms by (simp add: workspaces_load withFallback_Nil truthy_def)

theorem fallback_default_entry_witness:
  "fst (scanEnvironment asciiToLowerCase envFallback) = [] \<and>
   map_of envFallback ''N8N_API_URL'' = Some ''https://n8n'' \<and>
   map_of envFallback ''N8N_API_KEY'' = Some ''key'' \<and>
   workspaces (loadWorkspaceConfig asciiToLowerCase envFallback) =
     [(''default'', \<lparr>name = ''default'', url = ''https://n8n'', token = ''key'',
                     urlEnvVar = ''N8N_API_URL'', tokenEnvVar = ''N8N_API_KEY''\<rparr>)]"
proof -
  have u: "map_of envFallback ''N8N_API_URL'' = Some ''https://n8n''"
    by (simp add: envFallback_def)
  have k: "map_of envFallback ''N8N_API_KEY'' = Some ''key''"
    by (simp add: envFallback_def)
  from fallback_default_entry[OF envFallback_scan u _ k] envFallback_scan u k
  show ?thesis by simp
qed

text \<open>
  Claim C10 (as amended). Let the lower-casing of the empty string be the empty string.
  When the environment holds the variable \<open>N8N_URL_\<close> (empty suffix) with a non-empty
  value, no entry is created for it, whether or not \<open>N8N_TOKEN_\<close> is set: the empty
  string is not a key and no entry carries \<open>N8N_URL_\<close> as its \<open>urlEnvVar\<close>. The
  missing-token warning for the empty name is logged exactly when \<open>N8N_TOKEN_\<close> is
  missing or empty; with a non-empty token the candidate is skipped silently.
\<close>

theorem empty_name_candidate_skipped:
  assumes lc0: "lc [] = []" and "(urlPrefix, v) \<in> set env" and "v \<noteq> []"
  shows "[] \<notin> set (getAvailableWorkspaces (loadWorkspaceConfig lc env))
       \<and> (\<forall>(k, w) \<in> set (workspaces (loadWorkspaceConfig lc env)). urlEnvVar w \<noteq> urlPrefix)
       \<and> (missingTokenWarning [] tokenPrefix \<in> set (loadWarnings lc env) \<longleftrightarrow>
            \<not> truthy (map_of env tokenPrefix))"
proof (intro conjI)
  show "[] \<notin> set (getAvailableWorkspaces (loadWorkspaceConfig lc env))"
    unfolding getAvailableWorkspaces_def using load_keys_nonempty[of "[]" lc env] by blast
next
  show "\<forall>(k, w) \<in> set (workspaces (loadWorkspaceConfig lc env)). urlEnvVar w \<noteq> urlPrefix"
  proof (clarify)
    fix k w
    assume kw: "(k, w) \<in> set (workspaces (loadWorkspaceConfig lc env))"
      and var: "urlEnvVar w = urlPrefix"
    from load_entry_cases[OF kw] show False
    proof
      assume "\<exists>e \<in> set env. acceptedEntry lc env e \<and> k = lc (suffixOf e) \<and> w = candidate lc env e"
      then obtain e where e: "acceptedEntry lc env e" "w = candidate lc env e" by blast
      with var have "fst e = urlPrefix" by (simp add: candidate_def)
      then have "suffixOf e = []" by (simp add: suffixOf_def substring_def)
      with e(1) lc0 show False by (simp add: acceptedEntry_def)
    next
      assume "acceptedSuffixes lc env = [] \<and> k = ''default'' \<and> name w = ''default'' \<and>
          truthy (map_of env ''N8N_API_URL'') \<and> truthy (map_of env ''N8N_API_KEY'') \<and>
          url w = the (map_of env ''N8N_API_URL'') \<and> token w = the (map_of env ''N8N_API_KEY'') \<and>
          urlEnvVar w = ''N8N_API_URL'' \<and> tokenEnvVar w = ''N8N_API_KEY''"
      with var show False using fallback_var_not_prefixed[of "[]"] by simp
    qed
  qed
next
  show "missingTokenWarning [] tokenPrefix \<in> set (loadWarnings lc env) \<longleftrightarrow>
            \<not> truthy (map_of env tokenPrefix)"
  proof
    assume "missingTokenWarning [] tokenPrefix \<in> set (loadWarnings lc env)"
    then obtain e where e: "unpairedEntry env e"
        and msg: "warningFor lc e = missingTokenWarning [] tokenPrefix"
      by (auto simp: loadWarnings_eq)
    from msg have "suffixOf e = []"
      unfolding warningFor_def by (rule warning_empty_suffix)
    with e show "\<not> truthy (map_of env tokenPrefix)" by (simp add: unpairedEntry_def)
  next
    assume "\<not> truthy (map_of env tokenPrefix)"
    with assms have "unpairedEntry env (urlPrefix, v)"
      using startsWith_prefixed[of "[]"] suffixOf_prefixed[of "[]" v]
      by (simp add: unpairedEntry_def)
    with assms(2) have "warningFor lc (urlPrefix, v) \<in> set (loadWarnings lc env)"
      by (simp add: loadWarnings_eq)
    moreover have "warningFor lc (urlPrefix, v) = missingTokenWarning [] tokenPrefix"
      using suffixOf_prefixed[of "[]" v] lc0 by (simp add: warningFor_def)
    ultimately show "missingTokenWarning [] tokenPrefix \<in> set (loadWarnings lc env)" by simp
  qed
qed

theorem empty_name_candidate_skipped_witness:
  "asciiToLowerCase [] = []
   \<and> (urlPrefix, ''u'') \<in> set envEmptyNameToken
   \<and> truthy (map_of envEmptyNameToken tokenPrefix)
   \<and> missingTokenWarning [] tokenPrefix \<notin> set (loadWarnings asciiToLowerCase envEmptyNameToken)
   \<and> [] \<notin> set (getAvailableWorkspaces (loadWorkspaceConfig asciiToLowerCase envEmptyNameToken))"
proof -
  have h1: "(urlPrefix, ''u'') \<in> set envEmptyNameToken"
    by (simp add: envEmptyNameToken_def urlPrefix_def)
  have h2: "''u'' \<noteq> []" by simp
  have tok: "truthy (map_of envEmptyNameToken tokenPrefix)"
    by (simp add: envEmptyNameToken_def tokenPrefix_def truthy_def)
  have h0: "asciiToLowerCase [] = []" by (simp add: asciiToLowerCase_def)
  note inst = empty_name_candidate_skipped[of asciiToLowerCase "''u''" envEmptyNameToken, OF h0 h1 h2]
  from inst have "[] \<notin> set (getAvailableWorkspaces (loadWorkspaceConfig asciiToLowerCase envEmptyNameToken))"
    by (rule conjunct1)
  moreover from inst tok have "missingTokenWarning [] tokenPrefix \<notin> set (loadWarnings asciiToLowerCase envEmptyNameToken)"
    by blast
  ultimately show ?thesis using h0 h1 tok by blast
qed

theorem empty_name_warning_counterexample:
  "(urlPrefix, ''u'') \<in> set envEmptyName
   \<and> loadWarnings asciiToLowerCase envEmptyName = [missingTokenWarning [] tokenPrefix]
   \<and> missingTokenWarning [] tokenPrefix \<in> set (loadWarnings asciiToLowerCase envEmptyName)"
proof -
  have "loadWarnings asciiToLowerCase envEmptyName = [missingTokenWarning [] tokenPrefix]"
    by code_simp
  then show ?thesis by (simp add: envEmptyName_def urlPrefix_def)
qed

section \<open>Resolution\<close>

lemma getWorkspace_named:
  "lc n \<noteq> [] \<Longrightarrow> getWorkspace lc config (Some n) = map_of (workspaces config) (lc n)"
  by (simp add: getWorkspace_def orElse_def truthy_def)

lemma getWorkspace_unnamed:
  "getWorkspace lc config None =
     (case defaultWorkspace config of
        None \<Rightarrow> None
      | Some d \<Rightarrow> if d = [] then None else map_of (workspaces config) d)"
  by (simp add: getWorkspace_def orElse_def truthy_def split: option.splits)

lemma getWorkspace_blank:
  "lc [] = [] \<Longrightarrow> getWorkspace lc config (Some []) = getWorkspace lc config None"
  by (simp add: getWorkspace_def orElse_def truthy_def)

lemma join_Nil_iff:
  "\<forall>x \<in> set xs. x \<noteq> [] \<Longrightarrow> join xs sep = [] \<longleftrightarrow> xs = []"
  by (induction xs sep rule: join.induct) auto

lemma load_default_defined:
  assumes "defaultWorkspace (loadWorkspaceConfig lc env) = Some d"
  shows "d \<noteq> [] \<and> (\<exists>w. map_of (workspaces (loadWorkspaceConfig lc env)) d = Some w \<and> name w = d)"
proof -
  from assms have mem: "d \<in> set (map fst (workspaces (loadWorkspaceConfig lc env)))"
    by (rule defaultWorkspace_is_key)
  then have "d \<noteq> []" by (rule load_keys_nonempty)
  moreover from mem obtain w where w: "map_of (workspaces (loadWorkspaceConfig lc env)) d = Some w"
    by (metis domD dom_map_of_conv_image_fst set_map)
  then have "(d, w) \<in> set (workspaces (loadWorkspaceConfig lc env))" by (rule map_of_SomeD)
  then have "name w = d" using load_entry_wellformed by blast
  ultimately show ?thesis using w by blast
qed

lemma load_lookup_key:
  assumes "k \<in> set (map fst (workspaces (loadWorkspaceConfig lc env)))"
  shows "k \<noteq> [] \<and> (\<exists>w. map_of (workspaces (loadWorkspaceConfig lc env)) k = Some w \<and> name w = k)"
proof -
  from assms have "k \<noteq> []" by (rule load_keys_nonempty)
  moreover from assms obtain w where w: "map_of (workspaces (loadWorkspaceConfig lc env)) k = Some w"
    by (metis domD dom_map_of_conv_image_fst set_map)
  then have "(k, w) \<in> set (workspaces (loadWorkspaceConfig lc env))" by (rule map_of_SomeD)
  then have "name w = k" using load_entry_wellformed by blast
  ultimately show ?thesis using w by blast
qed

lemma load_join_keys:
  "join (map fst (workspaces (loadWorkspaceConfig lc env))) sep = [] \<longleftrightarrow>
   workspaces (loadWorkspaceConfig lc env) = []"
proof -
  have "\<forall>x \<in> set (map fst (workspaces (loadWorkspaceConfig lc env))). x \<noteq> []"
    using load_keys_nonempty by blast
  then have "join (map fst (workspaces (loadWorkspaceConfig lc env))) sep = [] \<longleftrightarrow>
             map fst (workspaces (loadWorkspaceConfig lc env)) = []"
    by (rule join_Nil_iff)
  then show ?thesis by simp
qed

text \<open>
  Claim C6 (as amended). Let the lower-casing be empty only on the empty string. For a
  manager holding a loaded registry: a supplied non-empty name whose lower-casing is not a
  key resolves to nothing (no context, no client, manager unchanged), and the not-found
  message for a supplied non-empty name quotes the name as given and lists all available
  workspace names joined by a comma and a space, or \<open>none\<close> when the registry is empty.
  When no name, or the empty string, is supplied and there is no default, the result is
  again nothing and the message is the fixed no-workspace-configured text.
\<close>

theorem unknown_workspace_not_found:
  assumes lcE: "\<forall>s. (lc s = []) = (s = [])"
    and cfg: "workspaceConfig m = loadWorkspaceConfig lc env"
  shows "(\<forall>n. n \<noteq> [] \<and> lc n \<notin> set (managerAvailableWorkspaces m) \<longrightarrow>
            getInstanceContext lc m (Some n) = None \<and> getClient lc (Some n) m = (None, m))
       \<and> (\<forall>n. n \<noteq> [] \<longrightarrow>
            getWorkspaceNotFoundError m (Some n) =
              ''Workspace '' @ apostrophe @ n @ apostrophe @
              '' not found. Available workspaces: '' @
              (if managerAvailableWorkspaces m = [] then ''none''
               else join (managerAvailableWorkspaces m) '', ''))
       \<and> (\<forall>nm. (nm = None \<or> nm = Some []) \<and> defaultWorkspace (workspaceConfig m) = None \<longrightarrow>
            getInstanceContext lc m nm = None \<and> getClient lc nm m = (None, m) \<and>
            getWorkspaceNotFoundError m nm = noWorkspaceConfiguredMessage)"
proof (intro conjI allI impI)
  fix n
  assume n: "n \<noteq> [] \<and> lc n \<notin> set (managerAvailableWorkspaces m)"
  then have "lc n \<notin> fst ` set (workspaces (workspaceConfig m))"
    by (simp add: managerAvailableWorkspaces_def getAvailableWorkspaces_def)
  then have "map_of (workspaces (workspaceConfig m)) (lc n) = None"
    by (simp add: map_of_eq_None_iff)
  moreover from n lcE have "lc n \<noteq> []" by simp
  ultimately have gw: "getWorkspace lc (workspaceConfig m) (Some n) = None"
    by (simp add: getWorkspace_named)
  then show "getInstanceContext lc m (Some n) = None" by (simp add: getInstanceContext_def)
  from gw show "getClient lc (Some n) m = (None, m)" by (simp add: getClient_def)
next
  fix n :: string
  assume n: "n \<noteq> []"
  have "join (managerAvailableWorkspaces m) '', '' = [] \<longleftrightarrow> managerAvailableWorkspaces m = []"
    using load_join_keys[of lc env "'', ''"] cfg
    by (simp add: managerAvailableWorkspaces_def getAvailableWorkspaces_def)
  with n show "getWorkspaceNotFoundError m (Some n) =
              ''Workspace '' @ apostrophe @ n @ apostrophe @
              '' not found. Available workspaces: '' @
              (if managerAvailableWorkspaces m = [] then ''none''
               else join (managerAvailableWorkspaces m) '', '')"
    by (simp add: getWorkspaceNotFoundError_def Let_def truthy_def)
next
  fix nm :: "string option"
  assume a: "(nm = None \<or> nm = Some []) \<and> defaultWorkspace (workspaceConfig m) = None"
  moreover from lcE have "lc [] = []" by simp
  ultimately have gw: "getWorkspace lc (workspaceConfig m) nm = None"
    by (auto simp: getWorkspace_blank getWorkspace_unnamed)
  then show "getInstanceContext lc m nm = None" by (simp add: getInstanceContext_def)
  from gw show "getClient lc nm m = (None, m)" by (simp add: getClient_def)
  from a show "getWorkspaceNotFoundError m nm = noWorkspaceConfiguredMessage"
    by (auto simp: getWorkspaceNotFoundError_def Let_def truthy_def)
qed

theorem unknown_workspace_not_found_witness:
  "(\<forall>s. (asciiToLowerCase s = []) = (s = []))
   \<and> workspaceConfig (newManager (loadWorkspaceConfig asciiToLowerCase scenarioB)) = loadWorkspaceConfig asciiToLowerCase scenarioB
   \<and> managerAvailableWorkspaces (newManager (loadWorkspaceConfig asciiToLowerCase scenarioB)) = [''a'', ''b'']
   \<and> asciiToLowerCase ''unknown'' = ''unknown''
   \<and> asciiToLowerCase ''unknown'' \<notin> set (managerAvailableWorkspaces (newManager (loadWorkspaceConfig asciiToLowerCase scenarioB)))
   \<and> getInstanceContext asciiToLowerCase (newManager (loadWorkspaceConfig asciiToLowerCase scenarioB)) (Some ''unknown'') = None
   \<and> getWorkspaceNotFoundError (newManager (loadWorkspaceConfig asciiToLowerCase scenarioB)) (Some ''unknown'') =
       ''Workspace '' @ apostrophe @ ''unknown'' @ apostrophe @
       '' not found. Available workspaces: a, b''
   \<and> defaultWorkspace (workspaceConfig (newManager (loadWorkspaceConfig asciiToLowerCase scenarioC))) = None
   \<and> getInstanceContext asciiToLowerCase (newManager (loadWorkspaceConfig asciiToLowerCase scenarioC)) None = None
   \<and> getWorkspaceNotFoundError (newManager (loadWorkspaceConfig asciiToLowerCase scenarioC)) None =
       noWorkspaceConfiguredMessage"
proof -
  let ?mB = "newManager (loadWorkspaceConfig asciiToLowerCase scenarioB)"
  let ?mC = "newManager (loadWorkspaceConfig asciiToLowerCase scenarioC)"
  have hB: "workspaceConfig ?mB = loadWorkspaceConfig asciiToLowerCase scenarioB" by (simp add: newManager_def)
  have hC: "workspaceConfig ?mC = loadWorkspaceConfig asciiToLowerCase scenarioC" by (simp add: newManager_def)
  have keys: "managerAvailableWorkspaces ?mB = [''a'', ''b'']"
    by (simp add: managerAvailableWorkspaces_def getAvailableWorkspaces_def newManager_def
        scenarioB_load)
  have absent: "asciiToLowerCase ''unknown'' \<notin> set (managerAvailableWorkspaces ?mB)"
    by (simp add: keys asciiToLowerCase_unknown)
  have noDefault: "defaultWorkspace (workspaceConfig ?mC) = None"
    by (simp add: newManager_def scenarioC_load)
  have h0: "\<forall>s. (asciiToLowerCase s = []) = (s = [])"
    by (simp add: asciiToLowerCase_Nil_iff)
  note instB = unknown_workspace_not_found[OF h0 hB]
  note instC = unknown_workspace_not_found[OF h0 hC]
  have ne: "''unknown'' \<noteq> []" by simp
  from instB ne absent have r1: "getInstanceContext asciiToLowerCase ?mB (Some ''unknown'') = None" by blast
  from instB ne have "getWorkspaceNotFoundError ?mB (Some ''unknown'') =
              ''Workspace '' @ apostrophe @ ''unknown'' @ apostrophe @
              '' not found. Available workspaces: '' @
              (if managerAvailableWorkspaces ?mB = [] then ''none''
               else join (managerAvailableWorkspaces ?mB) '', '')"
    by blast
  then have r2: "getWorkspaceNotFoundError ?mB (Some ''unknown'') =
       ''Workspace '' @ apostrophe @ ''unknown'' @ apostrophe @
       '' not found. Available workspaces: a, b''"
    by (simp add: keys)
  from instC noDefault have r3: "getInstanceContext asciiToLowerCase ?mC None = None"
    and r4: "getWorkspaceNotFoundError ?mC None = noWorkspaceConfiguredMessage"
    by blast+
  from h0 hB keys asciiToLowerCase_unknown absent r1 r2 noDefault r3 r4 show ?thesis by blast
qed

theorem empty_name_resolves_counterexample:
  "asciiToLowerCase [] \<notin> set (managerAvailableWorkspaces (newManager (loadWorkspaceConfig asciiToLowerCase scenarioA)))
   \<and> getInstanceContext asciiToLowerCase (newManager (loadWorkspaceConfig asciiToLowerCase scenarioA)) (Some []) =
       Some \<lparr>n8nApiUrl = ''https://a'', n8nApiKey = ''tok-a'', instanceId = ''workspace-personal''\<rparr>
   \<and> getWorkspaceNotFoundError (newManager (loadWorkspaceConfig asciiToLowerCase scenarioA)) (Some []) =
       noWorkspaceConfiguredMessage"
proof -
  let ?m = "newManager (loadWorkspaceConfig asciiToLowerCase scenarioA)"
  have wc: "workspaceConfig ?m =
     \<lparr>workspaces = [(''personal'', workspacePersonal)], defaultWorkspace = Some ''personal''\<rparr>"
    by (simp add: newManager_def scenarioA_load)
  have "asciiToLowerCase [] \<notin> set (managerAvailableWorkspaces ?m)"
    by (simp add: managerAvailableWorkspaces_def getAvailableWorkspaces_def wc asciiToLowerCase_def)
  moreover have "getInstanceContext asciiToLowerCase ?m (Some []) =
       Some \<lparr>n8nApiUrl = ''https://a'', n8nApiKey = ''tok-a'', instanceId = ''workspace-personal''\<rparr>"
    by (simp add: getInstanceContext_def getWorkspace_blank getWorkspace_unnamed wc
        workspaceToInstanceContext_def workspacePersonal_def asciiToLowerCase_def)
  moreover have "getWorkspaceNotFoundError ?m (Some []) = noWorkspaceConfiguredMessage"
    by (simp add: getWorkspaceNotFoundError_def Let_def truthy_def)
  ultimately show ?thesis by blast
qed

text \<open>
  Claim C7. For a manager holding a loaded registry: a supplied name whose lower-casing is
  a key resolves to the entry stored under that key, and the context carries the entry's url
  as \<open>n8nApiUrl\<close>, its token as \<open>n8nApiKey\<close> and \<open>workspace-\<close> followed by the
  lower-cased name, which is the entry's name, as \<open>instanceId\<close>; the client lookup
  succeeds as well. Without a name, an existing default resolves in the same way to the
  default's entry. Two supplied names with the same lower-casing resolve identically. This
  holds for every lower-casing.
\<close>

theorem getInstanceContext_resolves:
  assumes "workspaceConfig m = loadWorkspaceConfig lc env"
  shows "(\<forall>n. lc n \<in> set (managerAvailableWorkspaces m) \<longrightarrow>
            (\<exists>w. map_of (workspaces (workspaceConfig m)) (lc n) = Some w \<and>
                 getInstanceContext lc m (Some n) =
                   Some \<lparr>n8nApiUrl = url w, n8nApiKey = token w,
                         instanceId = ''workspace-'' @ lc n\<rparr> \<and>
                 fst (getClient lc (Some n) m) \<noteq> None))
       \<and> (\<forall>d. defaultWorkspace (workspaceConfig m) = Some d \<longrightarrow>
            (\<exists>w. map_of (workspaces (workspaceConfig m)) d = Some w \<and>
                 getInstanceContext lc m None =
                   Some \<lparr>n8nApiUrl = url w, n8nApiKey = token w,
                         instanceId = ''workspace-'' @ d\<rparr> \<and>
                 fst (getClient lc None m) \<noteq> None))
       \<and> (\<forall>n n'. lc n = lc n' \<longrightarrow>
            getInstanceContext lc m (Some n) = getInstanceContext lc m (Some n'))"
proof (intro conjI allI impI)
  fix n
  assume "lc n \<in> set (managerAvailableWorkspaces m)"
  with assms have key: "lc n \<in> set (map fst (workspaces (loadWorkspaceConfig lc env)))"
    by (simp add: managerAvailableWorkspaces_def getAvailableWorkspaces_def)
  from load_lookup_key[OF key] obtain w where
    ne: "lc n \<noteq> []" and
    w: "map_of (workspaces (loadWorkspaceConfig lc env)) (lc n) = Some w" and
    nm: "name w = lc n" by blast
  from ne w assms have gw: "getWorkspace lc (workspaceConfig m) (Some n) = Some w"
    by (simp add: getWorkspace_named)
  then have "getInstanceContext lc m (Some n) =
               Some \<lparr>n8nApiUrl = url w, n8nApiKey = token w,
                     instanceId = ''workspace-'' @ lc n\<rparr>"
    by (simp add: getInstanceContext_def workspaceToInstanceContext_def nm)
  moreover from gw have "fst (getClient lc (Some n) m) \<noteq> None"
    by (simp add: getClient_def case_prod_beta)
  ultimately show "\<exists>w. map_of (workspaces (workspaceConfig m)) (lc n) = Some w \<and>
                 getInstanceContext lc m (Some n) =
                   Some \<lparr>n8nApiUrl = url w, n8nApiKey = token w,
                         instanceId = ''workspace-'' @ lc n\<rparr> \<and>
                 fst (getClient lc (Some n) m) \<noteq> None"
    using w assms by simp
next
  fix d
  assume "defaultWorkspace (workspaceConfig m) = Some d"
  with assms have d: "defaultWorkspace (loadWorkspaceConfig lc env) = Some d" by simp
  from load_default_defined[OF d] obtain w where
    ne: "d \<noteq> []" and w: "map_of (workspaces (loadWorkspaceConfig lc env)) d = Some w" and
    nm: "name w = d" by blast
  from d ne w assms have gw: "getWorkspace lc (workspaceConfig m) None = Some w"
    by (simp add: getWorkspace_unnamed)
  then have "getInstanceContext lc m None =
               Some \<lparr>n8nApiUrl = url w, n8nApiKey = token w, instanceId = ''workspace-'' @ d\<rparr>"
    by (simp add: getInstanceContext_def workspaceToInstanceContext_def nm)
  moreover from gw have "fst (getClient lc None m) \<noteq> None"
    by (simp add: getClient_def case_prod_beta)
  ultimately show "\<exists>w. map_of (workspaces (workspaceConfig m)) d = Some w \<and>
                 getInstanceContext lc m None =
                   Some \<lparr>n8nApiUrl = url w, n8nApiKey = token w,
                         instanceId = ''workspace-'' @ d\<rparr> \<and>
                 fst (getClient lc None m) \<noteq> None"
    using w assms by simp
next
  fix n n' :: string
  assume "lc n = lc n'"
  then show "getInstanceContext lc m (Some n) = getInstanceContext lc m (Some n')"
    by (simp add: getInstanceContext_def getWorkspace_def)
qed

theorem getInstanceContext_resolves_witness:
  "workspaceConfig (newManager (loadWorkspaceConfig asciiToLowerCase scenarioB)) = loadWorkspaceConfig asciiToLowerCase scenarioB
   \<and> asciiToLowerCase ''A'' \<in> set (managerAvailableWorkspaces (newManager (loadWorkspaceConfig asciiToLowerCase scenarioB)))
   \<and> getInstanceContext asciiToLowerCase (newManager (loadWorkspaceConfig asciiToLowerCase scenarioB)) (Some ''A'') =
       Some \<lparr>n8nApiUrl = ''u1'', n8nApiKey = ''t1'', instanceId = ''workspace-a''\<rparr>
   \<and> defaultWorkspace (workspaceConfig (newManager (loadWorkspaceConfig asciiToLowerCase scenarioB))) = Some ''b''
   \<and> getInstanceContext asciiToLowerCase (newManager (loadWorkspaceConfig asciiToLowerCase scenarioB)) None =
       Some \<lparr>n8nApiUrl = ''u2'', n8nApiKey = ''t2'', instanceId = ''workspace-b''\<rparr>"
proof -
  let ?m = "newManager (loadWorkspaceConfig asciiToLowerCase scenarioB)"
  have h: "workspaceConfig ?m = loadWorkspaceConfig asciiToLowerCase scenarioB"
    by (simp add: newManager_def)
  have wc: "workspaceConfig ?m =
     \<lparr>workspaces = [(''a'', workspaceA), (''b'', workspaceB)], defaultWorkspace = Some ''b''\<rparr>"
    by (simp add: newManager_def scenarioB_load)
  have key: "asciiToLowerCase ''A'' \<in> set (managerAvailableWorkspaces ?m)"
    by (simp add: managerAvailableWorkspaces_def getAvailableWorkspaces_def wc asciiToLowerCase_A)
  have d: "defaultWorkspace (workspaceConfig ?m) = Some ''b''"
    by (simp add: wc)
  have lookA: "map_of (workspaces (workspaceConfig ?m)) (asciiToLowerCase ''A'') = Some workspaceA"
    by (simp add: wc asciiToLowerCase_A)
  have lookB: "map_of (workspaces (workspaceConfig ?m)) ''b'' = Some workspaceB"
    by (simp add: wc)
  note inst = getInstanceContext_resolves[OF h]
  from inst key obtain w where
    w1: "map_of (workspaces (workspaceConfig ?m)) (asciiToLowerCase ''A'') = Some w" and
    w2: "getInstanceContext asciiToLowerCase ?m (Some ''A'') =
       Some \<lparr>n8nApiUrl = url w, n8nApiKey = token w, instanceId = ''workspace-'' @ asciiToLowerCase ''A''\<rparr>"
    by blast
  from w1 lookA have "w = workspaceA" by simp
  with w2 have a: "getInstanceContext asciiToLowerCase ?m (Some ''A'') =
       Some \<lparr>n8nApiUrl = ''u1'', n8nApiKey = ''t1'', instanceId = ''workspace-a''\<rparr>"
    by (simp add: workspaceA_def asciiToLowerCase_A)
  from inst d obtain w' where
    w1': "map_of (workspaces (workspaceConfig ?m)) ''b'' = Some w'" and
    w2': "getInstanceContext asciiToLowerCase ?m None =
       Some \<lparr>n8nApiUrl = url w', n8nApiKey = token w', instanceId = ''workspace-'' @ ''b''\<rparr>"
    by blast
  from w1' lookB have "w' = workspaceB" by simp
  with w2' have b: "getInstanceContext asciiToLowerCase ?m None =
       Some \<lparr>n8nApiUrl = ''u2'', n8nApiKey = ''t2'', instanceId = ''workspace-b''\<rparr>"
    by (simp add: workspaceB_def)
  from h key a d b show ?thesis by blast
qed

text \<open>
  Claim C8. Multi-workspace mode holds exactly when the registry has more than one entry;
  the workspace-parameter schema is produced exactly in multi-workspace mode, and then it
  is a string parameter whose enum is the ordered list of available workspace names; with
  at most one entry the schema is absent. For a loaded registry, whatever the lower-casing,
  the keys are pairwise distinct, so the number of entries is the number of workspace names.
\<close>

theorem workspace_param_schema_iff_multi:
  "isMultiWorkspaceMode (workspaceConfig m) = (length (workspaces (workspaceConfig m)) > 1)
   \<and> isMultiWorkspace m = isMultiWorkspaceMode (workspaceConfig m)
   \<and> (getWorkspaceParamSchema m \<noteq> None \<longleftrightarrow> isMultiWorkspace m)
   \<and> (isMultiWorkspace m \<longrightarrow>
        (\<exists>s. getWorkspaceParamSchema m = Some s \<and> schemaType s = ''string'' \<and>
             enum s = getAvailableWorkspaces (workspaceConfig m)))
   \<and> (length (workspaces (workspaceConfig m)) \<le> 1 \<longrightarrow> getWorkspaceParamSchema m = None)
   \<and> (\<forall>lc env. length (workspaces (loadWorkspaceConfig lc env)) =
               card (set (getAvailableWorkspaces (loadWorkspaceConfig lc env))))"
proof (intro conjI allI)
  show "isMultiWorkspaceMode (workspaceConfig m) = (length (workspaces (workspaceConfig m)) > 1)"
    by (simp add: isMultiWorkspaceMode_def)
  show "isMultiWorkspace m = isMultiWorkspaceMode (workspaceConfig m)"
    by (simp add: isMultiWorkspace_def)
  show "getWorkspaceParamSchema m \<noteq> None \<longleftrightarrow> isMultiWorkspace m"
    by (simp add: getWorkspaceParamSchema_def Let_def)
  show "isMultiWorkspace m \<longrightarrow>
        (\<exists>s. getWorkspaceParamSchema m = Some s \<and> schemaType s = ''string'' \<and>
             enum s = getAvailableWorkspaces (workspaceConfig m))"
    by (simp add: getWorkspaceParamSchema_def Let_def managerAvailableWorkspaces_def)
  show "length (workspaces (workspaceConfig m)) \<le> 1 \<longrightarrow> getWorkspaceParamSchema m = None"
    by (simp add: getWorkspaceParamSchema_def isMultiWorkspace_def isMultiWorkspaceMode_def)
next
  fix lc :: lowerCasing and env
  have "length (workspaces (loadWorkspaceConfig lc env)) =
        length (map fst (workspaces (loadWorkspaceConfig lc env)))" by simp
  also have "\<dots> = card (set (map fst (workspaces (loadWorkspaceConfig lc env))))"
    using load_distinct[of lc env] by (rule distinct_card[symmetric])
  finally show "length (workspaces (loadWorkspaceConfig lc env)) =
               card (set (getAvailableWorkspaces (loadWorkspaceConfig lc env)))"
    by (simp only: getAvailableWorkspaces_def)
qed

theorem workspace_param_schema_iff_multi_witness:
  "isMultiWorkspace (newManager (loadWorkspaceConfig asciiToLowerCase scenarioB))
   \<and> length (workspaces (workspaceConfig (newManager (loadWorkspaceConfig asciiToLowerCase scenarioB)))) = 2
   \<and> map_option enum (getWorkspaceParamSchema (newManager (loadWorkspaceConfig asciiToLowerCase scenarioB))) =
       Some [''a'', ''b'']
   \<and> length (workspaces (workspaceConfig (newManager (loadWorkspaceConfig asciiToLowerCase scenarioA)))) = 1
   \<and> getWorkspaceParamSchema (newManager (loadWorkspaceConfig asciiToLowerCase scenarioA)) = None"
proof -
  let ?mB = "newManager (loadWorkspaceConfig asciiToLowerCase scenarioB)"
  let ?mA = "newManager (loadWorkspaceConfig asciiToLowerCase scenarioA)"
  have lenB: "length (workspaces (workspaceConfig ?mB)) = 2"
    by (simp add: newManager_def scenarioB_load)
  have lenA: "length (workspaces (workspaceConfig ?mA)) = 1"
    by (simp add: newManager_def scenarioA_load)
  have keysB: "getAvailableWorkspaces (workspaceConfig ?mB) = [''a'', ''b'']"
    by (simp add: newManager_def scenarioB_load getAvailableWorkspaces_def)
  note instB = workspace_param_schema_iff_multi[of ?mB]
  note instA = workspace_param_schema_iff_multi[of ?mA]
  from instB lenB have multi: "isMultiWorkspace ?mB" by simp
  with instB obtain s where "getWorkspaceParamSchema ?mB = Some s"
    "enum s = getAvailableWorkspaces (workspaceConfig ?mB)" by blast
  with keysB have "map_option enum (getWorkspaceParamSchema ?mB) = Some [''a'', ''b'']" by simp
  moreover from instA lenA have "getWorkspaceParamSchema ?mA = None" by simp
  ultimately show ?thesis using multi lenA lenB by blast
qed

text \<open>
  Claim C9. Let the lower-casing of the empty string be the empty string. \<open>getWorkspace\<close>
  called with the empty string gives the same result as \<open>getWorkspace\<close> called without a
  name, for every registry: the default workspace's definition when the default names an
  entry, and nothing otherwise; the empty string is never looked up as a key. For a loaded
  registry a default always names an entry, so the result is that entry.
\<close>

theorem getWorkspace_empty_name:
  assumes lc0: "lc [] = []"
  shows "getWorkspace lc config (Some []) = getWorkspace lc config None
   \<and> getWorkspace lc config (Some []) =
       (case defaultWorkspace config of
          None \<Rightarrow> None
        | Some d \<Rightarrow> if d = [] then None else map_of (workspaces config) d)
   \<and> (\<forall>env d. defaultWorkspace (loadWorkspaceConfig lc env) = Some d \<longrightarrow>
          (\<exists>w. getWorkspace lc (loadWorkspaceConfig lc env) (Some []) = Some w \<and> name w = d \<and>
               map_of (workspaces (loadWorkspaceConfig lc env)) d = Some w))
   \<and> (\<forall>env. defaultWorkspace (loadWorkspaceConfig lc env) = None \<longrightarrow>
          getWorkspace lc (loadWorkspaceConfig lc env) (Some []) = None)"
proof (intro conjI allI impI)
  show "getWorkspace lc config (Some []) = getWorkspace lc config None"
    using lc0 by (rule getWorkspace_blank)
next
  show "getWorkspace lc config (Some []) =
       (case defaultWorkspace config of
          None \<Rightarrow> None
        | Some d \<Rightarrow> if d = [] then None else map_of (workspaces config) d)"
    by (simp only: getWorkspace_blank[of lc, OF lc0] getWorkspace_unnamed)
next
  fix env d
  assume d: "defaultWorkspace (loadWorkspaceConfig lc env) = Some d"
  from load_default_defined[OF d] obtain w where
    "d \<noteq> []" "map_of (workspaces (loadWorkspaceConfig lc env)) d = Some w" "name w = d" by blast
  with d show "\<exists>w. getWorkspace lc (loadWorkspaceConfig lc env) (Some []) = Some w \<and> name w = d \<and>
               map_of (workspaces (loadWorkspaceConfig lc env)) d = Some w"
    by (simp add: getWorkspace_blank[of lc, OF lc0] getWorkspace_unnamed)
next
  fix env
  assume "defaultWorkspace (loadWorkspaceConfig lc env) = None"
  then show "getWorkspace lc (loadWorkspaceConfig lc env) (Some []) = None"
    by (simp add: getWorkspace_blank[of lc, OF lc0] getWorkspace_unnamed)
qed

theorem getWorkspace_empty_name_witness:
  "asciiToLowerCase [] = [] \<and>
   defaultWorkspace (loadWorkspaceConfig asciiToLowerCase scenarioA) = Some ''personal'' \<and>
   getWorkspace asciiToLowerCase (loadWorkspaceConfig asciiToLowerCase scenarioA) (Some []) = Some workspacePersonal \<and>
   getWorkspace asciiToLowerCase (loadWorkspaceConfig asciiToLowerCase scenarioA) None = Some workspacePersonal"
proof -
  have d: "defaultWorkspace (loadWorkspaceConfig asciiToLowerCase scenarioA) = Some ''personal''"
    by (simp add: scenarioA_load)
  have look: "map_of (workspaces (loadWorkspaceConfig asciiToLowerCase scenarioA)) ''personal'' = Some workspacePersonal"
    by (simp add: scenarioA_load)
  have h0: "asciiToLowerCase [] = []" by (simp add: asciiToLowerCase_def)
  note inst = getWorkspace_empty_name[of asciiToLowerCase "loadWorkspaceConfig asciiToLowerCase scenarioA", OF h0]
  from inst have same: "getWorkspace asciiToLowerCase (loadWorkspaceConfig asciiToLowerCase scenarioA) (Some []) =
                        getWorkspace asciiToLowerCase (loadWorkspaceConfig asciiToLowerCase scenarioA) None"
    by (rule conjunct1)
  from inst have "\<forall>env d. defaultWorkspace (loadWorkspaceConfig asciiToLowerCase env) = Some d \<longrightarrow>
          (\<exists>w. getWorkspace asciiToLowerCase (loadWorkspaceConfig asciiToLowerCase env) (Some []) = Some w \<and> name w = d \<and>
               map_of (workspaces (loadWorkspaceConfig asciiToLowerCase env)) d = Some w)"
    by (rule conjunct2[THEN conjunct2, THEN conjunct1])
  with d obtain w where "getWorkspace asciiToLowerCase (loadWorkspaceConfig asciiToLowerCase scenarioA) (Some []) = Some w"
    "map_of (workspaces (loadWorkspaceConfig asciiToLowerCase scenarioA)) ''personal'' = Some w" by blast
  with look have "getWorkspace asciiToLowerCase (loadWorkspaceConfig asciiToLowerCase scenarioA) (Some []) = Some workspacePersonal"
    by simp
  with same d h0 show ?thesis by simp
qed

end
